theory Spec2Isabelle
  imports Complex_Main "HOL-Library.Product_Lexorder"
begin

section \<open>Python values shared by the two extractors\<close>

text \<open>
  Strings are lists of characters; a character stands for a code point below 256.
  An exception that \<open>except Exception as e\<close> catches is represented by its message
  \<open>str(e)\<close>. A function of the source that may raise returns \<open>exn + 'a\<close>, with
  \<open>Inl\<close> for the raised exception.
\<close>

type_synonym exn = string

type_synonym blob = "nat list"

datatype image = PIL_Image "nat list"

text \<open>\<open>str.isspace\<close> on one character, for code points below 256.\<close>

definition isspace :: "char \<Rightarrow> bool" where
  "isspace c = ((of_char c :: nat) \<in> set [9, 10, 11, 12, 13, 28, 29, 30, 31, 32, 133, 160])"

text \<open>\<open>s.strip()\<close>: whitespace removed at both ends.\<close>

definition strip :: "string \<Rightarrow> string" where
  "strip s = rev (dropWhile isspace (rev (dropWhile isspace s)))"

text \<open>\<open>sep.join(xs)\<close>.\<close>

fun join :: "string \<Rightarrow> string list \<Rightarrow> string" where
  "join sep [] = []"
| "join sep [x] = x"
| "join sep (x # y # ys) = x @ sep @ join sep (y # ys)"

text \<open>\<open>s.ljust(w)\<close>: padded with spaces on the right up to width \<open>w\<close>.\<close>

definition ljust :: "string \<Rightarrow> nat \<Rightarrow> string" where
  "ljust s w = s @ replicate (w - length s) (CHR '' '')"

text \<open>\<open>str(n)\<close> for an integer, as used by the f-strings of the source.\<close>

definition digit_char :: "nat \<Rightarrow> char" where
  "digit_char d = ''0123456789'' ! d"

function str_nat :: "nat \<Rightarrow> string" where
  "str_nat n = (if n < 10 then [digit_char n] else str_nat (n div 10) @ [digit_char (n mod 10)])"
  by pat_completeness auto
termination
  by (relation "measure id") auto

declare str_nat.simps [simp del]

definition str_int :: "int \<Rightarrow> string" where
  "str_int i = (if i < 0 then CHR ''-'' # str_nat (nat (- i)) else str_nat (nat i))"

text \<open>Subscription \<open>xs[i]\<close> of a Python list. From \<open>-len(xs)\<close> up to \<open>-1\<close> the
  position is taken from the end; outside \<open>-len(xs) .. len(xs) - 1\<close> the
  subscription raises \<open>IndexError\<close>.\<close>

definition py_index :: "'a list \<Rightarrow> int \<Rightarrow> exn + 'a" where
  "py_index xs i =
     (if 0 \<le> i \<and> i < int (length xs) then Inr (xs ! nat i)
      else if i < 0 \<and> - int (length xs) \<le> i then Inr (xs ! nat (int (length xs) + i))
      else Inl ''list index out of range'')"

text \<open>
  The module-level availability flags, the optional chat-completion client and the two
  imaging calls (\<open>Image.open\<close> on bytes, \<open>pytesseract.image_to_string\<close> with
  \<open>--psm 6\<close>) are the environment of a run. The client maps the user prompt to the
  \<open>message.content\<close> of each returned choice, or raises.
\<close>

record env =
  OCR_AVAILABLE :: bool
  PANDAS_AVAILABLE :: bool
  OPENAI_AVAILABLE :: bool
  openai_client :: "(string \<Rightarrow> exn + string option list) option"
  Image_open :: "blob \<Rightarrow> exn + image"
  image_to_string :: "image \<Rightarrow> exn + string"

section \<open>PowerPoint extractor (ppt\_extractor.py)\<close>

text \<open>
  The logger calls of this module do not influence any returned value and are left out of
  the model of the PowerPoint pipeline.
\<close>

type_synonym ppt_table = "string list list"

text \<open>
  A shape as \<open>_extract_slide_content\<close> distinguishes it, in the order of its tests:
  a shape with a text frame (its paragraphs' texts), a table (the texts of its cells, or the
  exception raised while reading \<open>shape.table\<close>), a picture (its \<open>image.blob\<close>, or
  the exception raised while reading it), a group, any other shape, and a shape whose
  attributes cannot be read at all.
\<close>

datatype shape =
    Text_Frame "string list"
  | Table_Shape "exn + string list list"
  | Picture "exn + blob"
  | Group "shape list"
  | Other_Shape
  | Broken_Shape exn

text \<open>
  A slide: the text of its notes (\<open>None\<close> when \<open>has_notes_slide\<close> or
  \<open>notes_text_frame\<close> is false; \<open>Inl\<close> when reading them raises) and its shapes.
\<close>

record slide =
  notes_slide :: "exn + string option"
  shapes :: "shape list"

record slide_data =
  slide_number :: int
  "text" :: string
  "tables" :: "ppt_table list"
  images :: "blob list"
  "notes" :: string
  extraction_method :: string
  ocr_used :: bool
  llm_formatted :: bool

record ppt_result =
  file_path :: string
  slides :: "slide_data list"
  total_slides :: nat
  slides_processed :: nat
  tables_found :: nat
  errors :: "string list"

text \<open>What the file system and python-pptx make of \<open>pptx_path\<close>.\<close>

record pptx_file =
  pptx_exists :: bool
  Presentation :: "exn + slide list"

text \<open>\<open>_extract_text_from_text_frame\<close>\<close>

definition extract_text_from_text_frame :: "string list \<Rightarrow> string" where
  "extract_text_from_text_frame paragraphs =
     join ''\<newline>'' (filter (\<lambda>para_text. para_text \<noteq> []) (map strip paragraphs))"

text \<open>\<open>_extract_text_from_group\<close>: only the members with a text frame contribute; reading
  a broken member raises.\<close>

fun group_text_parts :: "shape list \<Rightarrow> exn + string list" where
  "group_text_parts [] = Inr []"
| "group_text_parts (Broken_Shape e # rest) = Inl e"
| "group_text_parts (Text_Frame paragraphs # rest) =
     (case group_text_parts rest of
        Inl e \<Rightarrow> Inl e
      | Inr text_parts \<Rightarrow>
          (let txt = extract_text_from_text_frame paragraphs
           in Inr (if txt \<noteq> [] then txt # text_parts else text_parts)))"
| "group_text_parts (other # rest) = group_text_parts rest"

definition extract_text_from_group :: "shape list \<Rightarrow> exn + string" where
  "extract_text_from_group group_shapes =
     (case group_text_parts group_shapes of
        Inl e \<Rightarrow> Inl e
      | Inr text_parts \<Rightarrow> Inr (join ''\<newline>'' text_parts))"

text \<open>\<open>_extract_table_from_shape\<close>\<close>

definition extract_table_from_shape :: "env \<Rightarrow> exn + string list list \<Rightarrow> ppt_table option" where
  "extract_table_from_shape env shape_table =
     (if \<not> PANDAS_AVAILABLE env then None
      else case shape_table of
             Inl e \<Rightarrow> None
           | Inr rows \<Rightarrow> Some (map (map strip) rows))"

text \<open>\<open>_extract_image_from_shape\<close>\<close>

definition extract_image_from_shape :: "exn + blob \<Rightarrow> blob option" where
  "extract_image_from_shape shape_image =
     (case shape_image of Inl e \<Rightarrow> None | Inr image_blob \<Rightarrow> Some image_blob)"

text \<open>\<open>_perform_ocr_on_image\<close>\<close>

definition perform_ocr_on_image :: "env \<Rightarrow> blob \<Rightarrow> exn + string" where
  "perform_ocr_on_image env image_data =
     (if \<not> OCR_AVAILABLE env then Inr []
      else case Image_open env image_data of
             Inl e \<Rightarrow> Inr []
           | Inr pil_image \<Rightarrow>
               (case image_to_string env pil_image of
                  Inl e \<Rightarrow> Inr []
                | Inr ocr_text \<Rightarrow> Inr ocr_text))"

text \<open>\<open>_format_text_parts\<close>: the loop over \<open>enumerate(text_parts)\<close>, with \<open>n\<close> the
  length of the whole list.\<close>

fun format_parts_loop :: "nat \<Rightarrow> (nat \<times> string) list \<Rightarrow> string list" where
  "format_parts_loop n [] = []"
| "format_parts_loop n ((i, part) # rest) =
     (if strip part \<noteq> []
      then part # (if int i < int n - 1 then [[]] else []) @ format_parts_loop n rest
      else format_parts_loop n rest)"

definition format_text_parts :: "string list \<Rightarrow> string" where
  "format_text_parts text_parts =
     (if text_parts = [] then []
      else join ''\<newline>'' (format_parts_loop (length text_parts) (List.enumerate 0 text_parts)))"

text \<open>\<open>_format_text_with_llm\<close>: the prompt built around the slide text, one
  chat-completion call, and the handler that returns the text unchanged.\<close>

definition llm_prompt :: "string \<Rightarrow> string" where
  "llm_prompt text_in =
     ''You are a text formatting assistant. The following text was extracted from a PowerPoint slide where text elements can be positioned anywhere on the slide. Please format this text into a clean, readable structure with proper paragraphs, headings, and organization.\<newline>\<newline>Extracted text:\<newline>''
     @ text_in @
     ''\<newline>\<newline>Please format this text to be easy to read, with:\<newline>- Clear paragraphs\<newline>- Proper spacing\<newline>- Headings/sections where appropriate\<newline>- Bullet points or lists preserved\<newline>- Logical flow and organization\<newline>\<newline>Formatted text:''"

definition format_text_with_llm :: "env \<Rightarrow> string \<Rightarrow> exn + string" where
  "format_text_with_llm env text_in =
     (if \<not> OPENAI_AVAILABLE env then Inr text_in
      else case openai_client env of
             None \<Rightarrow> Inr text_in
           | Some create \<Rightarrow>
               (case create (llm_prompt text_in) of
                  Inl e \<Rightarrow> Inr text_in
                | Inr choices \<Rightarrow>
                    (case py_index choices 0 of
                       Inl e \<Rightarrow> Inr text_in
                     | Inr None \<Rightarrow> Inr text_in
                     | Inr (Some content) \<Rightarrow> Inr (strip content))))"

text \<open>
  One iteration of the loop over \<open>slide.shapes\<close> in \<open>_extract_slide_content\<close>. The state
  is the three local lists and the \<open>ocr_used\<close> entry of the slide record. Every exception
  of an iteration is caught by the handler around it, which leaves the state as it is.
\<close>

fun shape_step ::
  "env \<Rightarrow> bool \<Rightarrow> string list \<times> ppt_table list \<times> blob list \<times> bool \<Rightarrow> shape
     \<Rightarrow> string list \<times> ppt_table list \<times> blob list \<times> bool" where
  "shape_step env use_ocr (text_parts, tables_acc, images_acc, ocr_flag) (Text_Frame paragraphs) =
     (let txt = extract_text_from_text_frame paragraphs
      in if txt \<noteq> [] then (text_parts @ [txt], tables_acc, images_acc, ocr_flag)
         else (text_parts, tables_acc, images_acc, ocr_flag))"
| "shape_step env use_ocr (text_parts, tables_acc, images_acc, ocr_flag) (Table_Shape shape_table) =
     (case extract_table_from_shape env shape_table of
        None \<Rightarrow> (text_parts, tables_acc, images_acc, ocr_flag)
      | Some table_data \<Rightarrow>
          if table_data \<noteq> [] then (text_parts, tables_acc @ [table_data], images_acc, ocr_flag)
          else (text_parts, tables_acc, images_acc, ocr_flag))"
| "shape_step env use_ocr (text_parts, tables_acc, images_acc, ocr_flag) (Picture shape_image) =
     (if use_ocr \<and> OCR_AVAILABLE env then
        (case extract_image_from_shape shape_image of
           None \<Rightarrow> (text_parts, tables_acc, images_acc, ocr_flag)
         | Some image_data \<Rightarrow>
             if image_data \<noteq> [] then
               (case perform_ocr_on_image env image_data of
                  Inl e \<Rightarrow> (text_parts, tables_acc, images_acc @ [image_data], ocr_flag)
                | Inr ocr_text \<Rightarrow>
                    if ocr_text \<noteq> []
                    then (text_parts @ [''[Image OCR]: '' @ ocr_text], tables_acc,
                          images_acc @ [image_data], True)
                    else (text_parts, tables_acc, images_acc @ [image_data], ocr_flag))
             else (text_parts, tables_acc, images_acc, ocr_flag))
      else (text_parts, tables_acc, images_acc, ocr_flag))"
| "shape_step env use_ocr (text_parts, tables_acc, images_acc, ocr_flag) (Group group_shapes) =
     (case extract_text_from_group group_shapes of
        Inl e \<Rightarrow> (text_parts, tables_acc, images_acc, ocr_flag)
      | Inr grouped_text \<Rightarrow>
          if grouped_text \<noteq> [] then (text_parts @ [grouped_text], tables_acc, images_acc, ocr_flag)
          else (text_parts, tables_acc, images_acc, ocr_flag))"
| "shape_step env use_ocr (text_parts, tables_acc, images_acc, ocr_flag) Other_Shape =
     (text_parts, tables_acc, images_acc, ocr_flag)"
| "shape_step env use_ocr (text_parts, tables_acc, images_acc, ocr_flag) (Broken_Shape e) =
     (text_parts, tables_acc, images_acc, ocr_flag)"

text \<open>The text of a slide as assembled from its shapes, before the language-model pass.\<close>

definition assembled_text :: "env \<Rightarrow> bool \<Rightarrow> shape list \<Rightarrow> string" where
  "assembled_text env use_ocr shps =
     format_text_parts (fst (foldl (shape_step env use_ocr) ([], [], [], False) shps))"

text \<open>\<open>_extract_slide_content\<close>\<close>

definition extract_slide_content ::
  "env \<Rightarrow> slide \<Rightarrow> int \<Rightarrow> bool \<Rightarrow> bool \<Rightarrow> exn + slide_data" where
  "extract_slide_content env sl slide_num use_ocr use_llm_formatting =
     (case notes_slide sl of
        Inl e \<Rightarrow> Inl e
      | Inr notes_text \<Rightarrow>
          (case foldl (shape_step env use_ocr) ([], [], [], False) (shapes sl) of
             (text_parts, tables_acc, images_acc, ocr_flag) \<Rightarrow>
               (let slide_data =
                      \<lparr> slide_number = slide_num,
                        text = format_text_parts text_parts,
                        tables = tables_acc,
                        images = images_acc,
                        notes = (case notes_text of None \<Rightarrow> [] | Some t \<Rightarrow> t),
                        extraction_method = ''native'',
                        ocr_used = ocr_flag,
                        llm_formatted = False \<rparr>
                in if use_llm_formatting \<and> OPENAI_AVAILABLE env \<and> openai_client env \<noteq> None
                   then (case format_text_with_llm env (slide_data.text slide_data) of
                           Inl e \<Rightarrow> Inr slide_data
                         | Inr formatted_text \<Rightarrow>
                             Inr (slide_data\<lparr> text := formatted_text, llm_formatted := True \<rparr>))
                   else Inr slide_data)))"

text \<open>The validation of the requested slide numbers in \<open>extract_text_from_pptx\<close>.\<close>

definition validate_slide_numbers :: "nat \<Rightarrow> int list option \<Rightarrow> int list option" where
  "validate_slide_numbers n_slides slide_numbers =
     (case slide_numbers of
        None \<Rightarrow> None
      | Some sns \<Rightarrow>
          if sns \<noteq> [] then
            (let valid = filter (\<lambda>sn. 1 \<le> sn \<and> sn \<le> int n_slides) sns
             in if valid = [] then None else Some valid)
          else Some sns)"

definition slides_to_process :: "nat \<Rightarrow> int list option \<Rightarrow> int list" where
  "slides_to_process n_slides slide_numbers =
     (case validate_slide_numbers n_slides slide_numbers of
        None \<Rightarrow> [1 .. int n_slides]
      | Some sns \<Rightarrow> if sns \<noteq> [] then sns else [1 .. int n_slides])"

text \<open>One iteration of the loop over \<open>slides_to_process\<close>, with its handler.\<close>

definition process_slide ::
  "env \<Rightarrow> slide list \<Rightarrow> bool \<Rightarrow> bool \<Rightarrow> ppt_result \<Rightarrow> int \<Rightarrow> ppt_result" where
  "process_slide env prs_slides use_ocr use_llm_formatting result slide_num =
     (case py_index prs_slides (slide_num - 1) of
        Inl e \<Rightarrow>
          result\<lparr> errors := errors result @ [''Slide '' @ str_int slide_num @ '': '' @ e] \<rparr>
      | Inr sl \<Rightarrow>
          (case extract_slide_content env sl slide_num use_ocr use_llm_formatting of
             Inl e \<Rightarrow>
               result\<lparr> errors := errors result @ [''Slide '' @ str_int slide_num @ '': '' @ e] \<rparr>
           | Inr slide_data \<Rightarrow>
               result\<lparr> slides := slides result @ [slide_data],
                       slides_processed := slides_processed result + 1,
                       tables_found := tables_found result + length (slide_data.tables slide_data) \<rparr>))"

text \<open>\<open>extract_text_from_pptx\<close>: a missing file and an unreadable presentation raise.\<close>

definition extract_text_from_pptx ::
  "env \<Rightarrow> pptx_file \<Rightarrow> string \<Rightarrow> int list option \<Rightarrow> bool \<Rightarrow> bool \<Rightarrow> exn + ppt_result" where
  "extract_text_from_pptx env file pptx_path slide_numbers use_ocr use_llm_formatting =
     (if \<not> pptx_exists file then Inl (''PowerPoint file not found: '' @ pptx_path)
      else case Presentation file of
             Inl e \<Rightarrow> Inl e
           | Inr prs_slides \<Rightarrow>
               (let n_slides = length prs_slides
                in Inr (foldl (process_slide env prs_slides use_ocr use_llm_formatting)
                          \<lparr> file_path = pptx_path, slides = [], total_slides = n_slides,
                            slides_processed = 0, tables_found = 0, errors = [] \<rparr>
                          (slides_to_process n_slides slide_numbers))))"

text \<open>
  The worksheet name of \<open>save_tables_to_excel\<close>: the f-string, the loop over
  \<open>invalid_chars\<close> with \<open>str.replace\<close>, then the cut at 31 characters.
\<close>

definition invalid_chars :: "char list" where
  "invalid_chars =
     [CHR 0x5C, CHR ''/'', CHR ''?'', CHR ''*'', CHR ''['', CHR '']'', CHR '':'', CHR 0x27]"

definition replace_char :: "char \<Rightarrow> char \<Rightarrow> string \<Rightarrow> string" where
  "replace_char old new s = map (\<lambda>c. if c = old then new else c) s"

definition sanitize_sheet_name :: "string \<Rightarrow> string" where
  "sanitize_sheet_name sheet_name =
     (let replaced = foldl (\<lambda>name char. replace_char char (CHR ''_'') name) sheet_name invalid_chars
      in if length replaced > 31 then take 31 replaced else replaced)"

definition sheet_name :: "int \<Rightarrow> nat \<Rightarrow> string" where
  "sheet_name slide_no i =
     sanitize_sheet_name (''Slide'' @ str_int slide_no @ ''_Table'' @ str_nat i)"

text \<open>The worksheet names in the order in which \<open>save_tables_to_excel\<close> writes them.\<close>

definition sheet_names :: "ppt_result \<Rightarrow> string list" where
  "sheet_names result =
     concat (map (\<lambda>sd. map (\<lambda>(i, table). sheet_name (slide_number sd) i)
                          (List.enumerate 1 (slide_data.tables sd)))
                 (slides result))"

section \<open>PDF extractor (pdf\_ocr\_extractor.py)\<close>

text \<open>
  The model of the PDF pipeline keeps the records handed to the module's logger, in order:
  the log is how a run of the second backend pass shows from outside.
\<close>

datatype level = INFO | WARNING | ERROR

type_synonym log = "(level \<times> string) list"

text \<open>A table cell of pdfplumber is a string or \<open>None\<close>.\<close>

type_synonym cell = "string option"

type_synonym table = "cell list list"

record page_data =
  page_number :: nat
  "text" :: string
  "tables" :: "table list"
  extraction_method :: string
  ocr_used :: bool

record pdf_result =
  file_path :: string
  pages :: "page_data list"
  total_pages :: nat
  extraction_method :: string
  tables_found :: nat
  errors :: "string list"

text \<open>
  A pdfplumber page, by the outcome of the three calls made on it:
  \<open>extract_text()\<close> (a string, \<open>None\<close>, or an exception), \<open>to_image().original\<close> and
  \<open>extract_tables()\<close>.
\<close>

record plumber_page =
  extract_text :: "exn + string option"
  to_image :: "exn + image"
  extract_tables :: "exn + table list"

text \<open>
  A text block of PyMuPDF is the tuple \<open>(x0, y0, x1, y1, text, block_no, block_type)\<close>;
  its length is 7, so the test \<open>len(block) > 4\<close> of the source always holds.
  Coordinates are finite floats, ordered as the rationals they denote.
\<close>

record block =
  x0 :: rat
  y0 :: rat
  x1 :: rat
  y1 :: rat
  block_text :: string
  block_no :: nat
  block_type :: nat

text \<open>
  A PyMuPDF page, by the outcome of \<open>get_text()\<close>, \<open>get_text("blocks")\<close> and
  \<open>get_pixmap(matrix).tobytes("png")\<close>.
\<close>

record fitz_page =
  get_text :: "exn + string"
  get_text_blocks :: "exn + block list"
  get_pixmap_png :: "exn + blob"

text \<open>What the file system and the two libraries make of \<open>pdf_path\<close>.\<close>

record pdf_file =
  pdf_exists :: bool
  pdfplumber_open :: "exn + plumber_page list"
  fitz_open :: "exn + fitz_page list"

text \<open>\<open>_perform_ocr_on_page\<close>\<close>

definition perform_ocr_on_page :: "env \<Rightarrow> plumber_page \<Rightarrow> exn + string" where
  "perform_ocr_on_page env page =
     (case to_image page of
        Inl e \<Rightarrow> Inl e
      | Inr pil_image \<Rightarrow> image_to_string env pil_image)"

text \<open>\<open>_perform_ocr_on_pymupdf_page\<close>\<close>

definition perform_ocr_on_pymupdf_page :: "env \<Rightarrow> fitz_page \<Rightarrow> exn + string" where
  "perform_ocr_on_pymupdf_page env page =
     (case get_pixmap_png page of
        Inl e \<Rightarrow> Inl e
      | Inr img_data \<Rightarrow>
          (case Image_open env img_data of
             Inl e \<Rightarrow> Inl e
           | Inr pil_image \<Rightarrow> image_to_string env pil_image))"

text \<open>\<open>_extract_tables_from_page\<close>, with the record it logs when the library raises.\<close>

definition extract_tables_from_page :: "plumber_page \<Rightarrow> log \<times> table list" where
  "extract_tables_from_page page =
     (case extract_tables page of
        Inl e \<Rightarrow> ([(ERROR, ''Error extracting tables: '' @ e)], [])
      | Inr extracted_tables \<Rightarrow> ([], filter (\<lambda>t. t \<noteq> []) extracted_tables))"

text \<open>\<open>_extract_tables_from_pymupdf_page\<close>\<close>

definition extract_tables_from_pymupdf_page :: "fitz_page \<Rightarrow> table list" where
  "extract_tables_from_pymupdf_page page = []"

text \<open>\<open>_extract_text_with_column_awareness\<close>; \<open>list.sort\<close> is stable, as \<open>sort_key\<close> is.\<close>

definition extract_text_with_column_awareness :: "fitz_page \<Rightarrow> exn + string" where
  "extract_text_with_column_awareness page =
     (case get_text_blocks page of
        Inl e \<Rightarrow> Inl e
      | Inr blocks \<Rightarrow>
          Inr (join ''\<newline>''
                 (map (\<lambda>b. strip (block_text b))
                      (filter (\<lambda>b. strip (block_text b) \<noteq> [])
                              (sort_key (\<lambda>b. (y0 b, x0 b)) blocks)))))"

text \<open>
  The branch on the native text of a page, which the two backend loops share word for word:
  \<open>if text and text.strip()\<close>, \<open>elif use_ocr\<close> with its handler, and nothing otherwise.
  \<open>ocr\<close> is the outcome of the backend's OCR helper on the page. The result is the log
  records written, the page record and the pass result.
\<close>

definition ocr_or_empty ::
  "bool \<Rightarrow> exn + string \<Rightarrow> nat \<Rightarrow> page_data \<Rightarrow> pdf_result \<Rightarrow> log \<times> page_data \<times> pdf_result" where
  "ocr_or_empty use_ocr ocr page_num page_data result =
     (if use_ocr then
        (case ocr of
           Inr ocr_text \<Rightarrow>
             ([(INFO, ''Performing OCR on page '' @ str_nat page_num)],
              page_data\<lparr> text := ocr_text, page_data.extraction_method := ''ocr'', ocr_used := True \<rparr>,
              result)
         | Inl e \<Rightarrow>
             ([(INFO, ''Performing OCR on page '' @ str_nat page_num),
               (ERROR, ''OCR failed on page '' @ str_nat page_num @ '': '' @ e)],
              page_data,
              result\<lparr> errors := errors result @ [''OCR failed on page '' @ str_nat page_num @ '': '' @ e] \<rparr>))
      else ([], page_data, result))"

definition extract_page_text ::
  "string option \<Rightarrow> bool \<Rightarrow> exn + string \<Rightarrow> nat \<Rightarrow> page_data \<Rightarrow> pdf_result
     \<Rightarrow> log \<times> page_data \<times> pdf_result" where
  "extract_page_text native use_ocr ocr page_num page_data result =
     (case native of
        None \<Rightarrow> ocr_or_empty use_ocr ocr page_num page_data result
      | Some t \<Rightarrow>
          if t \<noteq> [] \<and> strip t \<noteq> []
          then ([], page_data\<lparr> text := t, page_data.extraction_method := ''native'' \<rparr>, result)
          else ocr_or_empty use_ocr ocr page_num page_data result)"

text \<open>The body of the loop over \<open>enumerate(pdf.pages, 1)\<close> in \<open>_extract_with_pdfplumber\<close>.\<close>

definition plumber_page_step ::
  "env \<Rightarrow> bool \<Rightarrow> bool \<Rightarrow> nat \<Rightarrow> pdf_result \<Rightarrow> nat \<times> plumber_page \<Rightarrow> log \<times> (exn + pdf_result)" where
  "plumber_page_step env use_ocr preserve_tables n_pages result = (\<lambda>(page_num, page).
     (let lg0 = [(INFO, ''Processing page '' @ str_nat page_num @ ''/'' @ str_nat n_pages)];
          page_data = \<lparr> page_number = page_num, text = [], tables = [],
                        extraction_method = ''native'', ocr_used = False \<rparr>
      in case extract_text page of
           Inl e \<Rightarrow> (lg0, Inl e)
         | Inr native \<Rightarrow>
             (case extract_page_text native use_ocr (perform_ocr_on_page env page)
                     page_num page_data result of
                (lg1, page_data1, result1) \<Rightarrow>
                  if preserve_tables then
                    (case extract_tables_from_page page of
                       (lg2, tbls) \<Rightarrow>
                         (lg0 @ lg1 @ lg2,
                          Inr (result1\<lparr> pages := pages result1 @ [page_data1\<lparr> tables := tbls \<rparr>],
                                        tables_found := tables_found result1 + length tbls \<rparr>)))
                  else (lg0 @ lg1, Inr (result1\<lparr> pages := pages result1 @ [page_data1] \<rparr>)))))"

text \<open>The body of the loop over \<open>range(len(doc))\<close> in \<open>_extract_with_pymupdf\<close>.\<close>

definition pymupdf_page_step ::
  "env \<Rightarrow> bool \<Rightarrow> bool \<Rightarrow> bool \<Rightarrow> nat \<Rightarrow> pdf_result \<Rightarrow> nat \<times> fitz_page \<Rightarrow> log \<times> (exn + pdf_result)" where
  "pymupdf_page_step env use_ocr preserve_tables handle_multi_column n_pages result = (\<lambda>(page_num, page).
     (let lg0 = [(INFO, ''Processing page '' @ str_nat (page_num + 1) @ ''/'' @ str_nat n_pages)];
          page_data = \<lparr> page_number = page_num + 1, text = [], tables = [],
                        extraction_method = ''native'', ocr_used = False \<rparr>
      in case (if handle_multi_column then extract_text_with_column_awareness page
               else get_text page) of
           Inl e \<Rightarrow> (lg0, Inl e)
         | Inr native \<Rightarrow>
             (case extract_page_text (Some native) use_ocr (perform_ocr_on_pymupdf_page env page)
                     (page_num + 1) page_data result of
                (lg1, page_data1, result1) \<Rightarrow>
                  if preserve_tables then
                    (let tbls = extract_tables_from_pymupdf_page page
                     in (lg0 @ lg1,
                         Inr (result1\<lparr> pages := pages result1 @ [page_data1\<lparr> tables := tbls \<rparr>],
                                       tables_found := tables_found result1 + length tbls \<rparr>)))
                  else (lg0 @ lg1, Inr (result1\<lparr> pages := pages result1 @ [page_data1] \<rparr>)))))"

text \<open>
  A page loop: the body runs on each unit in turn; an exception that leaves the body ends
  the loop and the pass, and the records logged so far stay.
\<close>

fun run_pages ::
  "(pdf_result \<Rightarrow> 'a \<Rightarrow> log \<times> (exn + pdf_result)) \<Rightarrow> log \<times> pdf_result \<Rightarrow> 'a list
     \<Rightarrow> log \<times> (exn + pdf_result)" where
  "run_pages step (lg, result) [] = (lg, Inr result)"
| "run_pages step (lg, result) (unit # rest) =
     (case step result unit of
        (lg', Inl e) \<Rightarrow> (lg @ lg', Inl e)
      | (lg', Inr result') \<Rightarrow> run_pages step (lg @ lg', result') rest)"

text \<open>\<open>_extract_with_pdfplumber\<close>\<close>

definition extract_with_pdfplumber ::
  "env \<Rightarrow> pdf_file \<Rightarrow> string \<Rightarrow> bool \<Rightarrow> bool \<Rightarrow> bool \<Rightarrow> log \<times> (exn + pdf_result)" where
  "extract_with_pdfplumber env file pdf_path use_ocr preserve_tables handle_multi_column =
     (case pdfplumber_open file of
        Inl e \<Rightarrow> ([], Inl e)
      | Inr pdf_pages \<Rightarrow>
          run_pages (plumber_page_step env use_ocr preserve_tables (length pdf_pages))
            ([], \<lparr> file_path = pdf_path, pages = [], total_pages = length pdf_pages,
                   extraction_method = ''pdfplumber'', tables_found = 0, errors = [] \<rparr>)
            (List.enumerate 1 pdf_pages))"

text \<open>\<open>_extract_with_pymupdf\<close>\<close>

definition extract_with_pymupdf ::
  "env \<Rightarrow> pdf_file \<Rightarrow> string \<Rightarrow> bool \<Rightarrow> bool \<Rightarrow> bool \<Rightarrow> log \<times> (exn + pdf_result)" where
  "extract_with_pymupdf env file pdf_path use_ocr preserve_tables handle_multi_column =
     (case fitz_open file of
        Inl e \<Rightarrow> ([], Inl e)
      | Inr doc \<Rightarrow>
          run_pages (pymupdf_page_step env use_ocr preserve_tables handle_multi_column (length doc))
            ([], \<lparr> file_path = pdf_path, pages = [], total_pages = length doc,
                   extraction_method = ''pymupdf'', tables_found = 0, errors = [] \<rparr>)
            (List.enumerate 0 doc))"

text \<open>The test that sends \<open>extract_text_from_pdf\<close> to the second backend.\<close>

definition minimal_content :: "pdf_result \<Rightarrow> bool" where
  "minimal_content result =
     (pages result = [] \<or> list_all (\<lambda>page. strip (text page) = []) (pages result))"

text \<open>\<open>extract_text_from_pdf\<close>: a missing file raises; any exception of a backend pass is
  caught and its message appended to the errors of the result held at that moment.\<close>

definition trying_pymupdf :: "level \<times> string" where
  "trying_pymupdf = (INFO, ''Trying PyMuPDF for better text extraction...'')"

definition extract_text_from_pdf ::
  "env \<Rightarrow> pdf_file \<Rightarrow> string \<Rightarrow> bool \<Rightarrow> bool \<Rightarrow> bool \<Rightarrow> log \<times> (exn + pdf_result)" where
  "extract_text_from_pdf env file pdf_path use_ocr preserve_tables handle_multi_column =
     (if \<not> pdf_exists file then ([], Inl (''PDF file not found: '' @ pdf_path))
      else
        (let lg0 = [(INFO, ''Processing PDF: '' @ pdf_path)];
             result0 = \<lparr> file_path = pdf_path, pages = [], total_pages = 0,
                         extraction_method = ''unknown'', tables_found = 0, errors = [] \<rparr>
         in case extract_with_pdfplumber env file pdf_path use_ocr preserve_tables handle_multi_column of
              (lg1, Inl e) \<Rightarrow>
                (lg0 @ lg1 @ [(ERROR, ''Error processing PDF: '' @ e)],
                 Inr (result0\<lparr> errors := errors result0 @ [e] \<rparr>))
            | (lg1, Inr result1) \<Rightarrow>
                if minimal_content result1 then
                  (case extract_with_pymupdf env file pdf_path use_ocr preserve_tables handle_multi_column of
                     (lg2, Inl e) \<Rightarrow>
                       (lg0 @ lg1 @ [trying_pymupdf] @ lg2 @ [(ERROR, ''Error processing PDF: '' @ e)],
                        Inr (result1\<lparr> errors := errors result1 @ [e] \<rparr>))
                   | (lg2, Inr result2) \<Rightarrow> (lg0 @ lg1 @ [trying_pymupdf] @ lg2, Inr result2))
                else (lg0 @ lg1, Inr result1)))"

text \<open>
  \<open>format_tables_as_text\<close>. \<open>str(cell)\<close> of a missing cell is the word \<open>None\<close>;
  \<open>str(cell) if cell else ""\<close> is empty for a missing or empty cell. Reading or assigning
  \<open>max_widths[col_idx]\<close> outside the list raises \<open>IndexError\<close>.
\<close>

definition py_str :: "cell \<Rightarrow> string" where
  "py_str cell = (case cell of None \<Rightarrow> ''None'' | Some s \<Rightarrow> s)"

definition cell_str :: "cell \<Rightarrow> string" where
  "cell_str cell = (if cell \<noteq> None \<and> cell \<noteq> Some [] then py_str cell else [])"

text \<open>The two nested loops that fill \<open>max_widths\<close>.\<close>

fun widths_row :: "nat list \<Rightarrow> (nat \<times> cell) list \<Rightarrow> exn + nat list" where
  "widths_row max_widths [] = Inr max_widths"
| "widths_row max_widths ((col_idx, cell) # rest) =
     (let max_widths1 = (if col_idx \<ge> length max_widths then max_widths @ [0] else max_widths)
      in if col_idx < length max_widths1
         then widths_row
                (max_widths1[col_idx := max (max_widths1 ! col_idx) (length (py_str cell))]) rest
         else Inl ''list index out of range'')"

fun widths_table :: "nat list \<Rightarrow> table \<Rightarrow> exn + nat list" where
  "widths_table max_widths [] = Inr max_widths"
| "widths_table max_widths (row # rest) =
     (case widths_row max_widths (List.enumerate 0 row) of
        Inl e \<Rightarrow> Inl e
      | Inr max_widths1 \<Rightarrow> widths_table max_widths1 rest)"

text \<open>The two nested loops that format the rows.\<close>

fun format_cells :: "nat list \<Rightarrow> (nat \<times> cell) list \<Rightarrow> exn + string list" where
  "format_cells max_widths [] = Inr []"
| "format_cells max_widths ((col_idx, cell) # rest) =
     (if col_idx < length max_widths then
        (case format_cells max_widths rest of
           Inl e \<Rightarrow> Inl e
         | Inr formatted_row \<Rightarrow> Inr (ljust (cell_str cell) (max_widths ! col_idx) # formatted_row))
      else Inl ''list index out of range'')"

fun format_rows :: "nat list \<Rightarrow> table \<Rightarrow> exn + string list" where
  "format_rows max_widths [] = Inr []"
| "format_rows max_widths (row # rest) =
     (case format_cells max_widths (List.enumerate 0 row) of
        Inl e \<Rightarrow> Inl e
      | Inr formatted_row \<Rightarrow>
          (case format_rows max_widths rest of
             Inl e \<Rightarrow> Inl e
           | Inr formatted_lines \<Rightarrow> Inr (join '' | '' formatted_row # formatted_lines)))"

text \<open>The lines appended to \<open>formatted_tables\<close> for the \<open>i\<close>-th table.\<close>

definition format_table :: "nat \<Rightarrow> table \<Rightarrow> exn + string list" where
  "format_table i tbl =
     (let header = ''\<newline>--- Table '' @ str_nat i @ '' ---''
      in if tbl = [] then Inr [header, ''(Empty table)'']
         else case widths_table [] tbl of
                Inl e \<Rightarrow> Inl e
              | Inr max_widths \<Rightarrow>
                  (case format_rows max_widths tbl of
                     Inl e \<Rightarrow> Inl e
                   | Inr formatted_lines \<Rightarrow> Inr (header # formatted_lines)))"

fun format_all :: "(nat \<times> table) list \<Rightarrow> exn + string list" where
  "format_all [] = Inr []"
| "format_all ((i, tbl) # rest) =
     (case format_table i tbl of
        Inl e \<Rightarrow> Inl e
      | Inr table_lines \<Rightarrow>
          (case format_all rest of
             Inl e \<Rightarrow> Inl e
           | Inr formatted_tables \<Rightarrow> Inr (table_lines @ formatted_tables)))"

definition format_tables_as_text :: "table list \<Rightarrow> exn + string" where
  "format_tables_as_text tbls =
     (if tbls = [] then Inr []
      else case format_all (List.enumerate 1 tbls) of
             Inl e \<Rightarrow> Inl e
           | Inr formatted_tables \<Rightarrow> Inr (join ''\<newline>'' formatted_tables))"

section \<open>Notions used in the statements\<close>

text \<open>A requested slide is readable when reading its notes does not raise; such a slide
  yields a slide record, any other one an entry of the error list.\<close>

definition slide_readable :: "slide list \<Rightarrow> int \<Rightarrow> bool" where
  "slide_readable prs_slides sn = (\<not> isl (notes_slide (prs_slides ! nat (sn - 1))))"

text \<open>What one iteration of either loop does to the pass result when it completes: one
  page record is appended, with the number of the page, and its tables are counted.\<close>

definition page_appended :: "pdf_result \<Rightarrow> nat \<Rightarrow> pdf_result \<Rightarrow> bool" where
  "page_appended r k r' =
     (\<exists>pd. pages r' = pages r @ [pd] \<and> page_number pd = k
          \<and> tables_found r' = tables_found r + length (tables pd)
          \<and> (\<forall>t \<in> set (tables pd). t \<noteq> [])
          \<and> total_pages r' = total_pages r
          \<and> pdf_result.extraction_method r' = pdf_result.extraction_method r)"

text \<open>The page records of a result are numbered \<open>1, 2, ...\<close> and as many as
  \<open>total_pages\<close> says.\<close>

definition pages_in_order :: "pdf_result \<Rightarrow> bool" where
  "pages_in_order r =
     (length (pages r) = total_pages r
      \<and> (\<forall>i < length (pages r). page_number (pages r ! i) = i + 1))"

text \<open>The native text of a PyMuPDF page as \<open>_extract_with_pymupdf\<close> reads it.\<close>

definition pymupdf_native_text :: "bool \<Rightarrow> fitz_page \<Rightarrow> exn + string" where
  "pymupdf_native_text handle_multi_column page =
     (if handle_multi_column then extract_text_with_column_awareness page else get_text page)"

text \<open>The aggregate table count of a result equals the number of non-empty tables recorded
  in its page records, respectively its slide records.\<close>

definition tables_counted :: "pdf_result \<Rightarrow> bool" where
  "tables_counted r =
     (tables_found r = sum_list (map (\<lambda>pd. length (filter (\<lambda>t. t \<noteq> []) (tables pd))) (pages r)))"

definition slide_tables_counted :: "ppt_result \<Rightarrow> bool" where
  "slide_tables_counted r =
     (ppt_result.tables_found r =
        sum_list (map (\<lambda>sd. length (filter (\<lambda>t. t \<noteq> []) (slide_data.tables sd))) (slides r)))"

text \<open>
  The layout of the text report of a table: the number of columns is the length of the
  longest row; the width of a column is the largest length of \<open>py_str cell\<close> among the
  cells that the rows have in that column; a row is rendered from its own cells, each as
  \<open>cell_str cell\<close> left-justified to the width of its column, joined by \<open>" | "\<close>. On a
  cell that holds a string, \<open>py_str\<close> and \<open>cell_str\<close> both give that string.
\<close>

definition ncols :: "table \<Rightarrow> nat" where
  "ncols tbl = Max (set (0 # map length tbl))"

definition column_width :: "table \<Rightarrow> nat \<Rightarrow> nat" where
  "column_width tbl j =
     Max (set (0 # map (\<lambda>row. length (py_str (row ! j))) (filter (\<lambda>row. j < length row) tbl)))"

definition column_widths :: "table \<Rightarrow> nat list" where
  "column_widths tbl = map (column_width tbl) [0 ..< ncols tbl]"

definition render_row :: "nat list \<Rightarrow> cell list \<Rightarrow> string" where
  "render_row widths row =
     join '' | '' (map (\<lambda>(j, c). ljust (cell_str c) (widths ! j)) (List.enumerate 0 row))"

definition table_lines :: "nat \<Rightarrow> table \<Rightarrow> string list" where
  "table_lines i tbl =
     (''\<newline>--- Table '' @ str_nat i @ '' ---'')
       # (if tbl = [] then [''(Empty table)''] else map (render_row (column_widths tbl)) tbl)"

text \<open>The entry of a width list at a position, 0 beyond its end.\<close>

definition width_at :: "nat list \<Rightarrow> nat \<Rightarrow> nat" where
  "width_at ws j = (if j < length ws then ws ! j else 0)"

text \<open>A page has no native text when the library returns \<open>None\<close> or a string that is
  empty after stripping: the test \<open>text and text.strip()\<close> of the source is false.\<close>

definition no_native_text :: "string option \<Rightarrow> bool" where
  "no_native_text native = (case native of None \<Rightarrow> True | Some t \<Rightarrow> strip t = [])"

text \<open>A slide contains only images when each of its shapes is a picture.\<close>

fun is_picture :: "shape \<Rightarrow> bool" where
  "is_picture (Picture shape_image) = True"
| "is_picture other = False"

definition only_pictures :: "slide \<Rightarrow> bool" where
  "only_pictures sl = list_all is_picture (shapes sl)"

text \<open>The language-model pass is applied to a slide under this condition of
  \<open>_extract_slide_content\<close>.\<close>

definition llm_applied :: "env \<Rightarrow> bool \<Rightarrow> bool" where
  "llm_applied env use_llm_formatting =
     (use_llm_formatting \<and> OPENAI_AVAILABLE env \<and> openai_client env \<noteq> None)"

section \<open>Example inputs\<close>

text \<open>Concrete inputs on which the properties below are instantiated.\<close>

definition ocr_engine :: "image \<Rightarrow> exn + string" where
  "ocr_engine img =
     (case img of PIL_Image px \<Rightarrow>
        if px = [1] then Inr ''scanned words''
        else if px = [2] then Inr []
        else Inl ''tesseract failed'')"

definition chat_down :: "string \<Rightarrow> exn + string option list" where
  "chat_down prompt = Inl ''Connection error.''"

definition chat_ok :: "string \<Rightarrow> exn + string option list" where
  "chat_ok prompt = Inr [Some '' Tidy text '']"

definition env_ocr :: env where
  "env_ocr = \<lparr> OCR_AVAILABLE = True, PANDAS_AVAILABLE = True, OPENAI_AVAILABLE = True,
               openai_client = None, Image_open = (\<lambda>b. Inr (PIL_Image b)),
               image_to_string = ocr_engine \<rparr>"

definition env_no_ocr :: env where
  "env_no_ocr = env_ocr\<lparr> OCR_AVAILABLE := False \<rparr>"

definition env_llm_down :: env where
  "env_llm_down = env_ocr\<lparr> openai_client := Some chat_down \<rparr>"

definition env_llm_ok :: env where
  "env_llm_ok = env_ocr\<lparr> openai_client := Some chat_ok \<rparr>"

definition title_slide :: slide where
  "title_slide = \<lparr> notes_slide = Inr None, shapes = [Text_Frame [''Hello'']] \<rparr>"

definition unreadable_slide :: slide where
  "unreadable_slide = \<lparr> notes_slide = Inl ''bad notes part'', shapes = [] \<rparr>"

definition picture_slide :: slide where
  "picture_slide = \<lparr> notes_slide = Inr None, shapes = [Picture (Inr [1])] \<rparr>"

definition blank_picture_slide :: slide where
  "blank_picture_slide = \<lparr> notes_slide = Inr None, shapes = [Picture (Inr [2])] \<rparr>"

definition table_slide :: slide where
  "table_slide =
     \<lparr> notes_slide = Inr (Some ''speaker notes''),
       shapes = [Table_Shape (Inr [[''a'', '' b ''], [''c'']]), Table_Shape (Inr []),
                 Table_Shape (Inl ''no table part''), Table_Shape (Inr [[''d'']])] \<rparr>"

definition deck :: "slide list" where
  "deck = [title_slide, unreadable_slide, table_slide]"

definition deck_file :: pptx_file where
  "deck_file = \<lparr> pptx_exists = True, Presentation = Inr deck \<rparr>"

definition long_sheet_name :: string where
  "long_sheet_name =
     ''Q3'' @ [CHR 0x5C] @ ''Q4/plan?*[draft]:'' @ [CHR 0x27] @ ''final'' @ [CHR 0x27]
       @ '' tables of the report''"

definition two_table_result :: ppt_result where
  "two_table_result =
     \<lparr> ppt_result.file_path = ''deck.pptx'',
       slides = [\<lparr> slide_number = 3, slide_data.text = [],
                   slide_data.tables = [[[''a'']], [[''b'']]],
                   images = [], notes = [], slide_data.extraction_method = ''native'',
                   slide_data.ocr_used = False, llm_formatted = False \<rparr>],
       total_slides = 3, slides_processed = 1, ppt_result.tables_found = 2,
       ppt_result.errors = [] \<rparr>"

definition native_page :: plumber_page where
  "native_page =
     \<lparr> extract_text = Inr (Some ''Invoice 42''), to_image = Inr (PIL_Image [1]),
       extract_tables = Inr [[[Some ''a'', None]], [], [[Some ''b'']]] \<rparr>"

definition scanned_page :: plumber_page where
  "scanned_page =
     \<lparr> extract_text = Inr None, to_image = Inr (PIL_Image [1]), extract_tables = Inr [] \<rparr>"

definition unscannable_page :: plumber_page where
  "unscannable_page =
     \<lparr> extract_text = Inr (Some ''  ''), to_image = Inr (PIL_Image [3]),
       extract_tables = Inl ''table finder failed'' \<rparr>"

definition fitz_native_page :: fitz_page where
  "fitz_native_page =
     \<lparr> get_text = Inr ''right column\<newline>left column\<newline>'',
       get_text_blocks =
         Inr [\<lparr> x0 = 300, y0 = 50, x1 = 500, y1 = 70, block_text = ''right column\<newline>'',
                 block_no = 0, block_type = 0 \<rparr>,
              \<lparr> x0 = 50, y0 = 50, x1 = 250, y1 = 70, block_text = ''left column\<newline>'',
                 block_no = 1, block_type = 0 \<rparr>,
              \<lparr> x0 = 50, y0 = 20, x1 = 250, y1 = 30, block_text = '' \<newline>'',
                 block_no = 2, block_type = 0 \<rparr>],
       get_pixmap_png = Inr [1] \<rparr>"

definition fitz_scanned_page :: fitz_page where
  "fitz_scanned_page =
     \<lparr> get_text = Inr [], get_text_blocks = Inr [], get_pixmap_png = Inr [1] \<rparr>"

definition report_pdf :: pdf_file where
  "report_pdf =
     \<lparr> pdf_exists = True,
       pdfplumber_open = Inr [native_page, scanned_page, unscannable_page],
       fitz_open = Inr [fitz_native_page, fitz_scanned_page] \<rparr>"

definition scan_pdf :: pdf_file where
  "scan_pdf =
     \<lparr> pdf_exists = True,
       pdfplumber_open = Inr [scanned_page],
       fitz_open = Inr [fitz_native_page] \<rparr>"

definition damaged_pdf :: pdf_file where
  "damaged_pdf =
     \<lparr> pdf_exists = True,
       pdfplumber_open = Inr [scanned_page],
       fitz_open = Inl ''cannot open broken document'' \<rparr>"

text \<open>The outcome of the two backend passes on \<open>report_pdf\<close>, with OCR, tables and
  column handling switched on.\<close>

definition report_plumber_log :: log where
  "report_plumber_log =
     [(INFO, ''Processing page 1/3''), (INFO, ''Processing page 2/3''),
      (INFO, ''Performing OCR on page 2''), (INFO, ''Processing page 3/3''),
      (INFO, ''Performing OCR on page 3''),
      (ERROR, ''OCR failed on page 3: tesseract failed''),
      (ERROR, ''Error extracting tables: table finder failed'')]"

definition report_plumber_result :: pdf_result where
  "report_plumber_result =
     \<lparr> file_path = ''report.pdf'',
       pages =
         [\<lparr> page_number = 1, text = ''Invoice 42'',
             tables = [[[Some ''a'', None]], [[Some ''b'']]],
             extraction_method = ''native'', ocr_used = False \<rparr>,
          \<lparr> page_number = 2, text = ''scanned words'', tables = [],
             extraction_method = ''ocr'', ocr_used = True \<rparr>,
          \<lparr> page_number = 3, text = [], tables = [],
             extraction_method = ''native'', ocr_used = False \<rparr>],
       total_pages = 3, extraction_method = ''pdfplumber'', tables_found = 2,
       errors = [''OCR failed on page 3: tesseract failed''] \<rparr>"

definition report_pymupdf_log :: log where
  "report_pymupdf_log =
     [(INFO, ''Processing page 1/2''), (INFO, ''Processing page 2/2''),
      (INFO, ''Performing OCR on page 2'')]"

definition report_pymupdf_result :: pdf_result where
  "report_pymupdf_result =
     \<lparr> file_path = ''report.pdf'',
       pages =
         [\<lparr> page_number = 1, text = ''left column\<newline>right column'', tables = [],
             extraction_method = ''native'', ocr_used = False \<rparr>,
          \<lparr> page_number = 2, text = ''scanned words'', tables = [],
             extraction_method = ''ocr'', ocr_used = True \<rparr>],
       total_pages = 2, extraction_method = ''pymupdf'', tables_found = 0, errors = [] \<rparr>"

text \<open>The outcome of the two backend passes on \<open>scan_pdf\<close> with OCR switched off; the
  pdfplumber pass gives the same on \<open>damaged_pdf\<close>.\<close>

definition scan_plumber_result :: pdf_result where
  "scan_plumber_result =
     \<lparr> file_path = ''scan.pdf'',
       pages = [\<lparr> page_number = 1, text = [], tables = [],
                  extraction_method = ''native'', ocr_used = False \<rparr>],
       total_pages = 1, extraction_method = ''pdfplumber'', tables_found = 0, errors = [] \<rparr>"

definition scan_pymupdf_result :: pdf_result where
  "scan_pymupdf_result =
     \<lparr> file_path = ''scan.pdf'',
       pages = [\<lparr> page_number = 1, text = ''left column\<newline>right column'', tables = [],
                  extraction_method = ''native'', ocr_used = False \<rparr>],
       total_pages = 1, extraction_method = ''pymupdf'', tables_found = 0, errors = [] \<rparr>"

text \<open>The outcome of \<open>extract_text_from_pptx\<close> on \<open>deck_file\<close>, all slides, OCR on,
  formatting off.\<close>

definition deck_result :: ppt_result where
  "deck_result =
     \<lparr> ppt_result.file_path = ''deck.pptx'',
       slides =
         [\<lparr> slide_number = 1, slide_data.text = ''Hello'', slide_data.tables = [], images = [],
             notes = [], slide_data.extraction_method = ''native'',
             slide_data.ocr_used = False, llm_formatted = False \<rparr>,
          \<lparr> slide_number = 3, slide_data.text = [],
             slide_data.tables = [[[''a'', ''b''], [''c'']], [[''d'']]], images = [],
             notes = ''speaker notes'', slide_data.extraction_method = ''native'',
             slide_data.ocr_used = False, llm_formatted = False \<rparr>],
       total_slides = 3, slides_processed = 2, ppt_result.tables_found = 2,
       ppt_result.errors = [''Slide 2: bad notes part''] \<rparr>"

text \<open>The pass result before the first page of \<open>report_pdf\<close>, for either backend, and the
  result of \<open>extract_text_from_pptx\<close> before the first slide of \<open>deck_file\<close>.\<close>

definition plumber_start :: pdf_result where
  "plumber_start =
     \<lparr> file_path = ''report.pdf'', pages = [], total_pages = 3,
       extraction_method = ''pdfplumber'', tables_found = 0, errors = [] \<rparr>"

definition pymupdf_start :: pdf_result where
  "pymupdf_start =
     \<lparr> file_path = ''report.pdf'', pages = [], total_pages = 2,
       extraction_method = ''pymupdf'', tables_found = 0, errors = [] \<rparr>"

definition deck_start :: ppt_result where
  "deck_start =
     \<lparr> ppt_result.file_path = ''deck.pptx'', slides = [], total_slides = 3,
       slides_processed = 0, ppt_result.tables_found = 0, ppt_result.errors = [] \<rparr>"

definition plumber_after_page_1 :: pdf_result where
  "plumber_after_page_1 =
     plumber_start
       \<lparr> pages := [\<lparr> page_number = 1, text = ''Invoice 42'',
                      tables = [[[Some ''a'', None]], [[Some ''b'']]],
                      extraction_method = ''native'', ocr_used = False \<rparr>],
         tables_found := 2 \<rparr>"

definition pymupdf_after_page_1 :: pdf_result where
  "pymupdf_after_page_1 =
     pymupdf_start
       \<lparr> pages := [\<lparr> page_number = 1, text = ''left column\<newline>right column'', tables = [],
                      extraction_method = ''native'', ocr_used = False \<rparr>] \<rparr>"

text \<open>A table whose second row is shorter, the same table with the absent cell written as
  an empty string, and a table with missing (\<open>None\<close>) cells.\<close>

definition ragged_table :: table where
  "ragged_table = [[Some ''a'', Some ''bb''], [Some ''c'']]"

definition padded_table :: table where
  "padded_table = [[Some ''a'', Some ''bb''], [Some ''c'', Some []]]"

definition fitz_unscannable_page :: fitz_page where
  "fitz_unscannable_page =
     \<lparr> get_text = Inr '' '', get_text_blocks = Inr [], get_pixmap_png = Inr [3] \<rparr>"

definition broken_picture_slide :: slide where
  "broken_picture_slide = \<lparr> notes_slide = Inr None, shapes = [Picture (Inr [3])] \<rparr>"

definition picture_deck_file :: pptx_file where
  "picture_deck_file =
     \<lparr> pptx_exists = True,
       Presentation = Inr [picture_slide, blank_picture_slide, broken_picture_slide] \<rparr>"

definition unrenderable_page :: plumber_page where
  "unrenderable_page =
     \<lparr> extract_text = Inr None, to_image = Inl ''cannot render page'', extract_tables = Inr [] \<rparr>"

definition fitz_unrenderable_page :: fitz_page where
  "fitz_unrenderable_page =
     \<lparr> get_text = Inr [], get_text_blocks = Inr [], get_pixmap_png = Inl ''cannot render page'' \<rparr>"

definition empty_pdf :: pdf_file where
  "empty_pdf =
     \<lparr> pdf_exists = True, pdfplumber_open = Inr [], fitz_open = Inr [fitz_native_page] \<rparr>"

definition empty_plumber_result :: pdf_result where
  "empty_plumber_result =
     \<lparr> file_path = ''scan.pdf'', pages = [], total_pages = 0,
       extraction_method = ''pdfplumber'', tables_found = 0, errors = [] \<rparr>"

section \<open>Properties of the PowerPoint extractor\<close>

subsection \<open>Worksheet names\<close>

lemma replace_invalid_chars:
  "foldl (\<lambda>name char. replace_char char (CHR ''_'') name) s invalid_chars =
     map (\<lambda>c. if c \<in> set invalid_chars then CHR ''_'' else c) s"
  by (induction s) (simp_all add: invalid_chars_def replace_char_def)

lemma sanitize_sheet_name_eq:
  "sanitize_sheet_name s = take 31 (map (\<lambda>c. if c \<in> set invalid_chars then CHR ''_'' else c) s)"
  unfolding sanitize_sheet_name_def replace_invalid_chars Let_def by simp

lemma underscore_valid: "CHR ''_'' \<notin> set invalid_chars"
  by (simp add: invalid_chars_def)

lemma replaced_valid:
  "c \<in> set (map (\<lambda>c. if c \<in> set invalid_chars then CHR ''_'' else c) s) \<Longrightarrow> c \<notin> set invalid_chars"
  using underscore_valid by auto

lemma sanitize_no_invalid:
  assumes "c \<in> set (sanitize_sheet_name s)"
  shows "c \<notin> set invalid_chars"
proof -
  from assms have "c \<in> set (map (\<lambda>c. if c \<in> set invalid_chars then CHR ''_'' else c) s)"
    unfolding sanitize_sheet_name_eq by (rule in_set_takeD)
  then show ?thesis by (rule replaced_valid)
qed

lemma sanitize_length: "length (sanitize_sheet_name s) = min 31 (length s)"
  unfolding sanitize_sheet_name_eq by simp

lemma sheet_names_sanitized:
  assumes "name \<in> set (sheet_names result)"
  shows "\<exists>n i. name = sheet_name n i"
  using assms unfolding sheet_names_def by auto

lemma sanitized_relative:
  "sanitize_sheet_name s =
     (let replaced = map (\<lambda>c. if c \<in> set invalid_chars then CHR ''_'' else c) s
      in if length replaced > 31 then take 31 replaced else replaced)
   \<and> (length s > 31 \<longrightarrow>
        sanitize_sheet_name s =
          take 31 (map (\<lambda>c. if c \<in> set invalid_chars then CHR ''_'' else c) s)
        \<and> length (sanitize_sheet_name s) = 31)
   \<and> (\<forall>c \<in> set (sanitize_sheet_name s). c \<notin> set invalid_chars)
   \<and> sheet_name slide_no i =
        sanitize_sheet_name (''Slide'' @ str_int slide_no @ ''_Table'' @ str_nat i)
   \<and> (\<forall>name \<in> set (sheet_names result).
        length name \<le> 31 \<and> (\<forall>c \<in> set name. c \<notin> set invalid_chars))"
proof (intro conjI)
  show "sanitize_sheet_name s =
     (let replaced = map (\<lambda>c. if c \<in> set invalid_chars then CHR ''_'' else c) s
      in if length replaced > 31 then take 31 replaced else replaced)"
    unfolding sanitize_sheet_name_def replace_invalid_chars Let_def by simp
  show "length s > 31 \<longrightarrow>
        sanitize_sheet_name s =
          take 31 (map (\<lambda>c. if c \<in> set invalid_chars then CHR ''_'' else c) s)
        \<and> length (sanitize_sheet_name s) = 31"
    using sanitize_sheet_name_eq [of s] sanitize_length [of s] by simp
  show "\<forall>c \<in> set (sanitize_sheet_name s). c \<notin> set invalid_chars"
    using sanitize_no_invalid by blast
  show "sheet_name slide_no i =
        sanitize_sheet_name (''Slide'' @ str_int slide_no @ ''_Table'' @ str_nat i)"
    by (rule sheet_name_def)
  show "\<forall>name \<in> set (sheet_names result).
        length name \<le> 31 \<and> (\<forall>c \<in> set name. c \<notin> set invalid_chars)"
  proof
    fix name assume "name \<in> set (sheet_names result)"
    then obtain n j where "name = sheet_name n j"
      using sheet_names_sanitized by blast
    then have name: "name = sanitize_sheet_name (''Slide'' @ str_int n @ ''_Table'' @ str_nat j)"
      by (simp only: sheet_name_def)
    have "length name \<le> 31"
      unfolding name sanitize_length by simp
    moreover have "\<forall>c \<in> set name. c \<notin> set invalid_chars"
      unfolding name using sanitize_no_invalid by blast
    ultimately show "length name \<le> 31 \<and> (\<forall>c \<in> set name. c \<notin> set invalid_chars)"
      by (rule conjI)
  qed
qed

lemma invalid_chars_set:
  "set invalid_chars = {CHR 0x5C, CHR ''/'', CHR ''?'', CHR ''*'', CHR ''['', CHR '']'', CHR '':'', CHR 0x27}"
  by (auto simp: invalid_chars_def)

text \<open>
  Claim C7. A worksheet name is built by first replacing every occurrence of the characters
  \<open>\ / ? * [ ] : '\<close> with an underscore, every other character staying as it is, and then,
  when the replaced name is longer than 31 characters, cutting it to its first 31
  characters. Every name written by \<open>save_tables_to_excel\<close> is one such name, so it has
  at most 31 characters and none of the eight characters.
\<close>

theorem sheet_name_sanitized:
  "sanitize_sheet_name s =
     (let replaced = map (\<lambda>c. if c \<in> {CHR 0x5C, CHR ''/'', CHR ''?'', CHR ''*'', CHR ''['', CHR '']'', CHR '':'', CHR 0x27}
                                then CHR ''_'' else c) s
      in if length replaced > 31 then take 31 replaced else replaced)
   \<and> (length s > 31 \<longrightarrow>
        sanitize_sheet_name s =
          take 31 (map (\<lambda>c. if c \<in> {CHR 0x5C, CHR ''/'', CHR ''?'', CHR ''*'', CHR ''['', CHR '']'', CHR '':'', CHR 0x27}
                              then CHR ''_'' else c) s)
        \<and> length (sanitize_sheet_name s) = 31)
   \<and> (\<forall>c \<in> set (sanitize_sheet_name s).
         c \<notin> {CHR 0x5C, CHR ''/'', CHR ''?'', CHR ''*'', CHR ''['', CHR '']'', CHR '':'', CHR 0x27})
   \<and> sheet_name slide_no i =
        sanitize_sheet_name (''Slide'' @ str_int slide_no @ ''_Table'' @ str_nat i)
   \<and> (\<forall>name \<in> set (sheet_names result).
        length name \<le> 31
        \<and> (\<forall>c \<in> set name. c \<notin> {CHR 0x5C, CHR ''/'', CHR ''?'', CHR ''*'', CHR ''['', CHR '']'', CHR '':'', CHR 0x27}))"
  using sanitized_relative [of s slide_no i result] unfolding invalid_chars_set .

lemma long_sheet_name_length: "length long_sheet_name > 31"
  by (simp add: long_sheet_name_def)

lemma two_table_sheet_names: "sheet_names two_table_result = [''Slide3_Table1'', ''Slide3_Table2'']"
  by (simp add: sheet_names_def two_table_result_def enumerate_eq_zip upt_rec
      sheet_name_def sanitize_sheet_name_def invalid_chars_def replace_char_def
      str_int_def str_nat.simps digit_char_def)

theorem sheet_name_sanitized_witness:
  "length long_sheet_name > 31
   \<and> long_sheet_name = ''Q3'' @ [CHR 0x5C] @ ''Q4/plan?*[draft]:'' @ [CHR 0x27] @ ''final''
        @ [CHR 0x27] @ '' tables of the report''
   \<and> sanitize_sheet_name long_sheet_name = ''Q3_Q4_plan___draft___final_ tab''
   \<and> length (sanitize_sheet_name long_sheet_name) = 31
   \<and> sheet_name 3 2 = ''Slide3_Table2''
   \<and> ''Slide3_Table2'' \<in> set (sheet_names two_table_result)
   \<and> length ''Slide3_Table2'' \<le> (31::nat)
   \<and> set ''Slide3_Table2'' \<inter> {CHR 0x5C, CHR ''/'', CHR ''?'', CHR ''*'', CHR ''['', CHR '']'', CHR '':'', CHR 0x27} = {}"
proof -
  note inst = sheet_name_sanitized [of long_sheet_name 3 2 two_table_result]
  have taken: "take 31 (map (\<lambda>c. if c \<in> {CHR 0x5C, CHR ''/'', CHR ''?'', CHR ''*'', CHR ''['', CHR '']'', CHR '':'', CHR 0x27}
                                   then CHR ''_'' else c) long_sheet_name)
                 = ''Q3_Q4_plan___draft___final_ tab''"
    by (simp add: long_sheet_name_def)
  from inst long_sheet_name_length
  have "sanitize_sheet_name long_sheet_name =
          take 31 (map (\<lambda>c. if c \<in> {CHR 0x5C, CHR ''/'', CHR ''?'', CHR ''*'', CHR ''['', CHR '']'', CHR '':'', CHR 0x27}
                              then CHR ''_'' else c) long_sheet_name)"
    and len: "length (sanitize_sheet_name long_sheet_name) = 31"
    by blast+
  with taken have eq: "sanitize_sheet_name long_sheet_name = ''Q3_Q4_plan___draft___final_ tab''"
    by simp
  from inst have "sheet_name 3 2 = sanitize_sheet_name (''Slide'' @ str_int 3 @ ''_Table'' @ str_nat 2)"
    by blast
  also have "\<dots> = ''Slide3_Table2''"
    by (simp add: sanitize_sheet_name_def invalid_chars_def replace_char_def
        str_int_def str_nat.simps digit_char_def)
  finally have sn: "sheet_name 3 2 = ''Slide3_Table2''" .
  have mem: "''Slide3_Table2'' \<in> set (sheet_names two_table_result)"
    by (simp add: two_table_sheet_names)
  with inst have nm: "length ''Slide3_Table2'' \<le> (31::nat)
        \<and> (\<forall>c \<in> set ''Slide3_Table2''. c \<notin> {CHR 0x5C, CHR ''/'', CHR ''?'', CHR ''*'', CHR ''['', CHR '']'', CHR '':'', CHR 0x27})"
    by blast
  then have dj: "set ''Slide3_Table2'' \<inter> {CHR 0x5C, CHR ''/'', CHR ''?'', CHR ''*'', CHR ''['', CHR '']'', CHR '':'', CHR 0x27} = {}"
    by blast
  have df: "long_sheet_name = ''Q3'' @ [CHR 0x5C] @ ''Q4/plan?*[draft]:'' @ [CHR 0x27] @ ''final''
        @ [CHR 0x27] @ '' tables of the report''"
    by (rule long_sheet_name_def)
  from long_sheet_name_length df eq len sn mem nm dj show ?thesis by blast
qed

subsection \<open>Requested slide numbers\<close>

lemma extract_slide_content_raises:
  "notes_slide sl = Inl e \<Longrightarrow> extract_slide_content env sl n uo ul = Inl e"
  by (simp add: extract_slide_content_def)

lemma extract_slide_content_returns:
  "notes_slide sl = Inr nt \<Longrightarrow>
     \<exists>sd. extract_slide_content env sl n uo ul = Inr sd \<and> slide_number sd = n"
  by (simp add: extract_slide_content_def Let_def split: prod.splits sum.splits)

lemma slides_to_process_cases:
  "sns \<noteq> [] \<Longrightarrow>
   slides_to_process n (Some sns) =
     (if filter (\<lambda>sn. 1 \<le> sn \<and> sn \<le> int n) sns = [] then [1 .. int n]
      else filter (\<lambda>sn. 1 \<le> sn \<and> sn \<le> int n) sns)"
  by (simp add: slides_to_process_def validate_slide_numbers_def Let_def)

lemma slides_to_process_in_range:
  "sn \<in> set (slides_to_process n sel) \<Longrightarrow> 1 \<le> sn \<and> sn \<le> int n"
  by (auto simp: slides_to_process_def validate_slide_numbers_def Let_def
      split: option.splits if_splits)

lemma py_index_in_range:
  "1 \<le> sn \<Longrightarrow> sn \<le> int (length xs) \<Longrightarrow> py_index xs (sn - 1) = Inr (xs ! nat (sn - 1))"
  by (simp add: py_index_def)

lemma process_slide_readable:
  assumes "1 \<le> sn" "sn \<le> int (length prs)" "slide_readable prs sn"
  shows "\<exists>sd. process_slide env prs uo ul r sn =
           r\<lparr> slides := slides r @ [sd],
               slides_processed := slides_processed r + 1,
               ppt_result.tables_found := ppt_result.tables_found r + length (slide_data.tables sd) \<rparr>
          \<and> slide_number sd = sn
          \<and> extract_slide_content env (prs ! nat (sn - 1)) sn uo ul = Inr sd"
proof -
  from assms(3) obtain nt where "notes_slide (prs ! nat (sn - 1)) = Inr nt"
    unfolding slide_readable_def by (cases "notes_slide (prs ! nat (sn - 1))") simp_all
  then obtain sd where "extract_slide_content env (prs ! nat (sn - 1)) sn uo ul = Inr sd"
    "slide_number sd = sn"
    using extract_slide_content_returns by blast
  then show ?thesis
    using assms(1,2) by (simp add: process_slide_def py_index_in_range)
qed

lemma process_slide_unreadable:
  assumes "1 \<le> sn" "sn \<le> int (length prs)" "\<not> slide_readable prs sn"
  shows "\<exists>e. process_slide env prs uo ul r sn =
           r\<lparr> ppt_result.errors :=
                 ppt_result.errors r @ [''Slide '' @ str_int sn @ '': '' @ e] \<rparr>"
proof -
  from assms(3) obtain e where "notes_slide (prs ! nat (sn - 1)) = Inl e"
    unfolding slide_readable_def by (cases "notes_slide (prs ! nat (sn - 1))") simp_all
  then have "extract_slide_content env (prs ! nat (sn - 1)) sn uo ul = Inl e"
    by (rule extract_slide_content_raises)
  then have "process_slide env prs uo ul r sn =
           r\<lparr> ppt_result.errors :=
                 ppt_result.errors r @ [''Slide '' @ str_int sn @ '': '' @ e] \<rparr>"
    using assms(1,2) by (simp add: process_slide_def py_index_in_range)
  then show ?thesis ..
qed

lemma process_slides_numbers:
  assumes "\<forall>sn \<in> set todo. 1 \<le> sn \<and> sn \<le> int (length prs)"
  shows "map slide_number (slides (foldl (process_slide env prs uo ul) r todo)) =
           map slide_number (slides r) @ filter (slide_readable prs) todo
         \<and> length (ppt_result.errors (foldl (process_slide env prs uo ul) r todo)) =
           length (ppt_result.errors r) + length (filter (\<lambda>sn. \<not> slide_readable prs sn) todo)"
  using assms
proof (induction todo arbitrary: r)
  case Nil
  then show ?case by simp
next
  case (Cons sn todo)
  then have rng: "1 \<le> sn" "sn \<le> int (length prs)" by simp_all
  from Cons.prems have rest: "\<forall>sn \<in> set todo. 1 \<le> sn \<and> sn \<le> int (length prs)" by simp
  note IH = Cons.IH [OF rest]
  show ?case
  proof (cases "slide_readable prs sn")
    case True
    from process_slide_readable [OF rng True, of env uo ul r]
    obtain sd where step: "process_slide env prs uo ul r sn =
           r\<lparr> slides := slides r @ [sd],
               slides_processed := slides_processed r + 1,
               ppt_result.tables_found := ppt_result.tables_found r + length (slide_data.tables sd) \<rparr>"
      and sd: "slide_number sd = sn" by blast
    show ?thesis
      using IH [of "process_slide env prs uo ul r sn"] True sd by (simp add: step)
  next
    case False
    from process_slide_unreadable [OF rng False, of env uo ul r]
    obtain e where step: "process_slide env prs uo ul r sn =
           r\<lparr> ppt_result.errors :=
                 ppt_result.errors r @ [''Slide '' @ str_int sn @ '': '' @ e] \<rparr>" by blast
    show ?thesis
      using IH [of "process_slide env prs uo ul r sn"] False by (simp add: step)
  qed
qed

text \<open>
  Claim C4. When \<open>extract_text_from_pptx\<close> is called with a non-empty list of slide
  numbers, the numbers outside \<open>1 .. total_slides\<close> are removed, order and repetitions
  kept, and when nothing is left all slides \<open>1 .. total_slides\<close> are taken instead. The
  loop then runs over exactly that list: the slide records of the result carry, in order,
  the numbers of the list whose slide could be read, and every other number of the list
  leaves one entry in the error list.
\<close>

theorem requested_slides_filtered:
  assumes "slide_numbers \<noteq> []"
    and "pptx_exists file" and "Presentation file = Inr prs"
  shows "slides_to_process (length prs) (Some slide_numbers) =
           (if filter (\<lambda>sn. 1 \<le> sn \<and> sn \<le> int (length prs)) slide_numbers = []
            then [1 .. int (length prs)]
            else filter (\<lambda>sn. 1 \<le> sn \<and> sn \<le> int (length prs)) slide_numbers)
         \<and> (\<exists>result.
               extract_text_from_pptx env file pptx_path (Some slide_numbers) use_ocr use_llm
                 = Inr result
               \<and> map slide_number (slides result) =
                   filter (slide_readable prs) (slides_to_process (length prs) (Some slide_numbers))
               \<and> length (ppt_result.errors result) =
                   length (filter (\<lambda>sn. \<not> slide_readable prs sn)
                             (slides_to_process (length prs) (Some slide_numbers))))"
proof (rule conjI)
  show "slides_to_process (length prs) (Some slide_numbers) =
           (if filter (\<lambda>sn. 1 \<le> sn \<and> sn \<le> int (length prs)) slide_numbers = []
            then [1 .. int (length prs)]
            else filter (\<lambda>sn. 1 \<le> sn \<and> sn \<le> int (length prs)) slide_numbers)"
    using assms(1) by (rule slides_to_process_cases)
next
  let ?todo = "slides_to_process (length prs) (Some slide_numbers)"
  let ?init = "\<lparr> ppt_result.file_path = pptx_path, slides = [], total_slides = length prs,
                  slides_processed = 0, ppt_result.tables_found = 0, ppt_result.errors = [] \<rparr>"
  have rng: "\<forall>sn \<in> set ?todo. 1 \<le> sn \<and> sn \<le> int (length prs)"
    using slides_to_process_in_range by blast
  have ex: "extract_text_from_pptx env file pptx_path (Some slide_numbers) use_ocr use_llm =
          Inr (foldl (process_slide env prs use_ocr use_llm) ?init ?todo)"
    using assms(2,3) by (simp add: extract_text_from_pptx_def Let_def)
  from process_slides_numbers [OF rng, of env use_ocr use_llm ?init]
  show "\<exists>result.
               extract_text_from_pptx env file pptx_path (Some slide_numbers) use_ocr use_llm
                 = Inr result
               \<and> map slide_number (slides result) =
                   filter (slide_readable prs) ?todo
               \<and> length (ppt_result.errors result) =
                   length (filter (\<lambda>sn. \<not> slide_readable prs sn) ?todo)"
    unfolding ex by simp
qed

lemma deck_readable: "filter (slide_readable deck) [3, 2] = [3]"
  "filter (\<lambda>sn. \<not> slide_readable deck sn) [3, 2] = [2]"
  by (simp_all add: slide_readable_def deck_def title_slide_def unreadable_slide_def table_slide_def)

theorem requested_slides_filtered_witness:
  "[0, 3, 7, 2] \<noteq> ([] :: int list) \<and> pptx_exists deck_file \<and> Presentation deck_file = Inr deck
   \<and> slides_to_process (length deck) (Some [0, 3, 7, 2]) = [3, 2]
   \<and> (case extract_text_from_pptx env_ocr deck_file ''deck.pptx'' (Some [0, 3, 7, 2]) True False of
         Inl e \<Rightarrow> False
       | Inr result \<Rightarrow> map slide_number (slides result) = [3]
                        \<and> length (ppt_result.errors result) = 1)
   \<and> slides_to_process (length deck) (Some [0, 7]) = [1, 2, 3]"
proof -
  have h1: "[0, 3, 7, 2] \<noteq> ([] :: int list)" by simp
  have h2: "pptx_exists deck_file" by (simp add: deck_file_def)
  have h3: "Presentation deck_file = Inr deck" by (simp add: deck_file_def)
  have len: "length deck = 3" by (simp add: deck_def)
  note inst = requested_slides_filtered [OF h1 h2 h3, of env_ocr "''deck.pptx''" True False]
  from inst have todo: "slides_to_process (length deck) (Some [0, 3, 7, 2]) = [3, 2]"
    by (simp add: len)
  from inst obtain result where
    r: "extract_text_from_pptx env_ocr deck_file ''deck.pptx'' (Some [0, 3, 7, 2]) True False = Inr result"
    and n: "map slide_number (slides result) =
              filter (slide_readable deck) (slides_to_process (length deck) (Some [0, 3, 7, 2]))"
    and e: "length (ppt_result.errors result) =
              length (filter (\<lambda>sn. \<not> slide_readable deck sn)
                        (slides_to_process (length deck) (Some [0, 3, 7, 2])))"
    by blast
  from n e have "map slide_number (slides result) = [3]" "length (ppt_result.errors result) = 1"
    unfolding todo deck_readable by simp_all
  moreover have "[0, 7] \<noteq> ([] :: int list)" by simp
  from requested_slides_filtered [OF this h2 h3, of env_ocr "''deck.pptx''" True False]
  have "slides_to_process (length deck) (Some [0, 7]) = [1, 2, 3]"
    by (simp add: len upto.simps)
  ultimately show ?thesis using h1 h2 h3 todo r by simp
qed

subsection \<open>Language-model formatting\<close>

lemma format_text_with_llm_returns:
  "\<exists>formatted_text. format_text_with_llm env text_in = Inr formatted_text"
  by (simp add: format_text_with_llm_def split: option.splits sum.splits)

lemma format_text_with_llm_call_raises:
  assumes "OPENAI_AVAILABLE env" "openai_client env = Some create"
    and "create (llm_prompt text_in) = Inl e"
  shows "format_text_with_llm env text_in = Inr text_in"
  using assms by (simp add: format_text_with_llm_def)

lemma slide_content_llm_call_raises:
  assumes "notes_slide sl = Inr nt"
    and "OPENAI_AVAILABLE env" "openai_client env = Some create"
    and "create (llm_prompt (assembled_text env use_ocr (shapes sl))) = Inl e"
  shows "\<exists>sd. extract_slide_content env sl n use_ocr True = Inr sd
              \<and> slide_data.text sd = assembled_text env use_ocr (shapes sl)
              \<and> llm_formatted sd"
proof -
  obtain text_parts tables_acc images_acc ocr_flag where
    fold: "foldl (shape_step env use_ocr) ([], [], [], False) (shapes sl) =
             (text_parts, tables_acc, images_acc, ocr_flag)"
    by (cases "foldl (shape_step env use_ocr) ([], [], [], False) (shapes sl)") auto
  then have asm: "assembled_text env use_ocr (shapes sl) = format_text_parts text_parts"
    by (simp add: assembled_text_def)
  have "format_text_with_llm env (format_text_parts text_parts) = Inr (format_text_parts text_parts)"
    using assms(2,3,4) unfolding asm by (rule format_text_with_llm_call_raises)
  then show ?thesis
    using assms(1,2,3) fold asm by (simp add: extract_slide_content_def)
qed

text \<open>
  Claim C3. A slide processed with formatting enabled whose chat-completion call raises:
  the exception does not leave \<open>_extract_slide_content\<close> and the text of the record is the
  text assembled from the shapes. The flag \<open>llm_formatted\<close> of the record is nevertheless
  true: \<open>_format_text_with_llm\<close> catches the exception and returns its input, so the caller
  takes the returned text for a formatted one. Here the client raises on every prompt and
  the slide holds one text box reading \<open>Hello\<close>.
\<close>

theorem llm_failure_sets_flag:
  "chat_down (llm_prompt ''Hello'') = Inl ''Connection error.''
   \<and> assembled_text env_llm_down True (shapes title_slide) = ''Hello''
   \<and> extract_slide_content env_llm_down title_slide 1 True True =
       Inr \<lparr> slide_number = 1, slide_data.text = ''Hello'', slide_data.tables = [],
             images = [], notes = [], slide_data.extraction_method = ''native'',
             slide_data.ocr_used = False, llm_formatted = True \<rparr>"
proof (intro conjI)
  show "chat_down (llm_prompt ''Hello'') = Inl ''Connection error.''"
    by (simp add: chat_down_def)
  show "assembled_text env_llm_down True (shapes title_slide) = ''Hello''"
    by code_simp
  show "extract_slide_content env_llm_down title_slide 1 True True =
       Inr \<lparr> slide_number = 1, slide_data.text = ''Hello'', slide_data.tables = [],
             images = [], notes = [], slide_data.extraction_method = ''native'',
             slide_data.ocr_used = False, llm_formatted = True \<rparr>"
    by code_simp
qed

section \<open>Properties of the PDF extractor\<close>

subsection \<open>The page loops of the PDF extractor\<close>

lemma ocr_or_empty_page:
  "ocr_or_empty use_ocr ocr k pd r = (lg, pd', r') \<Longrightarrow>
     page_number pd' = page_number pd \<and> tables pd' = tables pd"
  by (auto simp: ocr_or_empty_def split: if_splits sum.splits)

lemma ocr_or_empty_result:
  "ocr_or_empty use_ocr ocr k pd r = (lg, pd', r') \<Longrightarrow>
     pages r' = pages r \<and> tables_found r' = tables_found r \<and> total_pages r' = total_pages r
     \<and> pdf_result.extraction_method r' = pdf_result.extraction_method r
     \<and> file_path r' = file_path r"
  by (auto simp: ocr_or_empty_def split: if_splits sum.splits)

lemma extract_page_text_page:
  "extract_page_text native use_ocr ocr k pd r = (lg, pd', r') \<Longrightarrow>
     page_number pd' = page_number pd \<and> tables pd' = tables pd"
  by (auto simp: extract_page_text_def split: option.splits if_splits dest: ocr_or_empty_page)

lemma extract_page_text_result:
  "extract_page_text native use_ocr ocr k pd r = (lg, pd', r') \<Longrightarrow>
     pages r' = pages r \<and> tables_found r' = tables_found r \<and> total_pages r' = total_pages r
     \<and> pdf_result.extraction_method r' = pdf_result.extraction_method r
     \<and> file_path r' = file_path r"
  by (auto simp: extract_page_text_def split: option.splits if_splits dest: ocr_or_empty_result)

lemma extract_tables_from_page_nonempty:
  "extract_tables_from_page page = (lg, tbls) \<Longrightarrow> \<forall>t \<in> set tbls. t \<noteq> []"
  by (auto simp: extract_tables_from_page_def split: sum.splits)

lemma plumber_page_step_appends:
  assumes "plumber_page_step env use_ocr preserve_tables n r (k, page) = (lg, Inr r')"
  shows "page_appended r k r'"
proof -
  from assms obtain native where nat: "extract_text page = Inr native"
    by (cases "extract_text page") (auto simp: plumber_page_step_def Let_def)
  let ?pd0 = "\<lparr> page_number = k, text = [], tables = [],
                 page_data.extraction_method = ''native'', ocr_used = False \<rparr>"
  obtain lg1 pd1 r1 where
    ept: "extract_page_text native use_ocr (perform_ocr_on_page env page) k ?pd0 r = (lg1, pd1, r1)"
    by (cases "extract_page_text native use_ocr (perform_ocr_on_page env page) k ?pd0 r") auto
  note pg = extract_page_text_page [OF ept] and rs = extract_page_text_result [OF ept]
  obtain lg2 tbls where tb: "extract_tables_from_page page = (lg2, tbls)"
    by (cases "extract_tables_from_page page") auto
  note ne = extract_tables_from_page_nonempty [OF tb]
  show ?thesis
  proof (cases preserve_tables)
    case True
    with assms nat ept tb
    have "r' = r1\<lparr> pages := pages r1 @ [pd1\<lparr> tables := tbls \<rparr>],
                    tables_found := tables_found r1 + length tbls \<rparr>"
      by (simp add: plumber_page_step_def Let_def)
    then show ?thesis
      unfolding page_appended_def using pg rs ne
      by (intro exI [of _ "pd1\<lparr> tables := tbls \<rparr>"]) simp
  next
    case False
    with assms nat ept
    have "r' = r1\<lparr> pages := pages r1 @ [pd1] \<rparr>"
      by (simp add: plumber_page_step_def Let_def)
    then show ?thesis
      unfolding page_appended_def using pg rs
      by (intro exI [of _ pd1]) simp
  qed
qed

lemma pymupdf_page_step_appends:
  assumes "pymupdf_page_step env use_ocr preserve_tables hmc n r (k, page) = (lg, Inr r')"
  shows "page_appended r (k + 1) r'"
proof -
  let ?native = "if hmc then extract_text_with_column_awareness page else get_text page"
  from assms obtain native where nat: "?native = Inr native"
    by (cases ?native) (auto simp: pymupdf_page_step_def Let_def)
  let ?pd0 = "\<lparr> page_number = k + 1, text = [], tables = [],
                 page_data.extraction_method = ''native'', ocr_used = False \<rparr>"
  obtain lg1 pd1 r1 where
    ept: "extract_page_text (Some native) use_ocr (perform_ocr_on_pymupdf_page env page) (k + 1) ?pd0 r
            = (lg1, pd1, r1)"
    by (cases "extract_page_text (Some native) use_ocr (perform_ocr_on_pymupdf_page env page) (k + 1) ?pd0 r") auto
  note pg = extract_page_text_page [OF ept] and rs = extract_page_text_result [OF ept]
  show ?thesis
  proof (cases preserve_tables)
    case True
    with assms nat ept
    have eq: "r' = r1\<lparr> pages := pages r1 @ [pd1\<lparr> tables := [] \<rparr>] \<rparr>"
      by (auto simp: pymupdf_page_step_def Let_def extract_tables_from_pymupdf_page_def)
    have "pages r' = pages r1 @ [pd1\<lparr> tables := [] \<rparr>]" "tables_found r' = tables_found r1"
      "total_pages r' = total_pages r1"
      "pdf_result.extraction_method r' = pdf_result.extraction_method r1"
      unfolding eq by simp_all
    then show ?thesis
      unfolding page_appended_def using pg rs
      by (intro exI [of _ "pd1\<lparr> tables := [] \<rparr>"]) simp
  next
    case False
    with assms nat ept
    have "r' = r1\<lparr> pages := pages r1 @ [pd1] \<rparr>"
      by (simp add: pymupdf_page_step_def Let_def)
    then show ?thesis
      unfolding page_appended_def using pg rs
      by (intro exI [of _ pd1]) simp
  qed
qed

lemma run_pages_invariant:
  assumes step: "\<And>r u lg r'. P r \<Longrightarrow> step r u = (lg, Inr r') \<Longrightarrow> P r'"
    and "P r0" and "run_pages step (lg0, r0) us = (lg, Inr r)"
  shows "P r"
  using assms(2,3)
proof (induction us arbitrary: lg0 r0)
  case Nil
  then show ?case by simp
next
  case (Cons u us)
  obtain lg1 res where s1: "step r0 u = (lg1, res)" by (cases "step r0 u") auto
  with Cons.prems(2) obtain r1 where res: "res = Inr r1"
    by (cases res) auto
  from s1 res Cons.prems(2) have "run_pages step (lg0 @ lg1, r1) us = (lg, Inr r)" by simp
  moreover from step [OF Cons.prems(1)] s1 res have "P r1" by simp
  ultimately show ?case using Cons.IH by blast
qed

lemma run_pages_pointwise:
  assumes step: "\<And>r k u lg r'. step r (k, u) = (lg, Inr r') \<Longrightarrow>
                   \<exists>pd. pages r' = pages r @ [pd] \<and> Q k u pd"
    and "run_pages step (lg0, r0) (List.enumerate n us) = (lg, Inr r)"
  shows "\<exists>pds. pages r = pages r0 @ pds \<and> length pds = length us
               \<and> (\<forall>i < length us. Q (n + i) (us ! i) (pds ! i))"
  using assms(2)
proof (induction us arbitrary: n lg0 r0)
  case Nil
  then show ?case by simp
next
  case (Cons u us)
  obtain lg1 res where s1: "step r0 (n, u) = (lg1, res)" by (cases "step r0 (n, u)") auto
  with Cons.prems obtain r1 where res: "res = Inr r1"
    by (cases res) auto
  from s1 res Cons.prems have run: "run_pages step (lg0 @ lg1, r1) (List.enumerate (Suc n) us) = (lg, Inr r)"
    by simp
  from step s1 res obtain pd where pd: "pages r1 = pages r0 @ [pd]" "Q n u pd" by blast
  from Cons.IH [OF run] obtain pds where
    pds: "pages r = pages r1 @ pds" "length pds = length us"
      "\<forall>i < length us. Q (Suc n + i) (us ! i) (pds ! i)" by blast
  have "\<forall>i < length (u # us). Q (n + i) ((u # us) ! i) ((pd # pds) ! i)"
  proof (intro allI impI)
    fix i assume "i < length (u # us)"
    then show "Q (n + i) ((u # us) ! i) ((pd # pds) ! i)"
      using pd(2) pds(3) by (cases i) simp_all
  qed
  with pd(1) pds(1,2) show ?case
    by (intro exI [of _ "pd # pds"]) simp
qed

lemma run_pages_prefix:
  assumes "run_pages step (lg0, r0) us = (lg, Inr r)"
  shows "\<exists>lg' r'. run_pages step (lg0, r0) (take j us) = (lg', Inr r')"
  using assms
proof (induction us arbitrary: lg0 r0 j)
  case Nil
  then show ?case by simp
next
  case (Cons u us)
  obtain lg1 res where s1: "step r0 u = (lg1, res)" by (cases "step r0 u") auto
  with Cons.prems obtain r1 where res: "res = Inr r1"
    by (cases res) auto
  from s1 res Cons.prems have run: "run_pages step (lg0 @ lg1, r1) us = (lg, Inr r)" by simp
  show ?case
  proof (cases j)
    case 0
    then show ?thesis by simp
  next
    case (Suc j')
    from Cons.IH [OF run, of j'] s1 res Suc show ?thesis by simp
  qed
qed

lemma plumber_pages:
  assumes "extract_with_pdfplumber env file path uo pt hmc = (lg, Inr r)"
  shows "\<exists>pdf_pages. pdfplumber_open file = Inr pdf_pages \<and> total_pages r = length pdf_pages
           \<and> length (pages r) = length pdf_pages
           \<and> (\<forall>i < length pdf_pages. page_number (pages r ! i) = i + 1)"
proof -
  from assms obtain pdf_pages where op: "pdfplumber_open file = Inr pdf_pages"
    by (cases "pdfplumber_open file") (auto simp: extract_with_pdfplumber_def)
  let ?r0 = "\<lparr> file_path = path, pages = [], total_pages = length pdf_pages,
                 extraction_method = ''pdfplumber'', tables_found = 0, errors = [] \<rparr>"
  let ?step = "plumber_page_step env uo pt (length pdf_pages)"
  from assms op have run: "run_pages ?step ([], ?r0) (List.enumerate 1 pdf_pages) = (lg, Inr r)"
    by (simp add: extract_with_pdfplumber_def)
  have "\<exists>pds. pages r = pages ?r0 @ pds \<and> length pds = length pdf_pages
               \<and> (\<forall>i < length pdf_pages. (\<lambda>k u pd. page_number pd = k) (1 + i) (pdf_pages ! i) (pds ! i))"
  proof (rule run_pages_pointwise [OF _ run])
    fix r k u lg r'
    assume "?step r (k, u) = (lg, Inr r')"
    then have "page_appended r k r'" by (rule plumber_page_step_appends)
    then show "\<exists>pd. pages r' = pages r @ [pd] \<and> page_number pd = k"
      unfolding page_appended_def by blast
  qed
  then have pg: "length (pages r) = length pdf_pages"
      "\<forall>i < length pdf_pages. page_number (pages r ! i) = i + 1"
    by auto
  have "total_pages r = total_pages ?r0"
  proof (rule run_pages_invariant [where P = "\<lambda>x. total_pages x = total_pages ?r0", OF _ _ run])
    fix r u lg r'
    assume p: "total_pages r = total_pages ?r0" and s: "?step r u = (lg, Inr r')"
    obtain k page where "u = (k, page)" by (cases u)
    with s have "page_appended r k r'" using plumber_page_step_appends by blast
    with p show "total_pages r' = total_pages ?r0" unfolding page_appended_def by auto
  qed simp
  with op pg show ?thesis by simp
qed

lemma pymupdf_pages:
  assumes "extract_with_pymupdf env file path uo pt hmc = (lg, Inr r)"
  shows "\<exists>doc. fitz_open file = Inr doc \<and> total_pages r = length doc
           \<and> length (pages r) = length doc
           \<and> (\<forall>i < length doc. page_number (pages r ! i) = i + 1)"
proof -
  from assms obtain doc where op: "fitz_open file = Inr doc"
    by (cases "fitz_open file") (auto simp: extract_with_pymupdf_def)
  let ?r0 = "\<lparr> file_path = path, pages = [], total_pages = length doc,
                 extraction_method = ''pymupdf'', tables_found = 0, errors = [] \<rparr>"
  let ?step = "pymupdf_page_step env uo pt hmc (length doc)"
  from assms op have run: "run_pages ?step ([], ?r0) (List.enumerate 0 doc) = (lg, Inr r)"
    by (simp add: extract_with_pymupdf_def)
  have "\<exists>pds. pages r = pages ?r0 @ pds \<and> length pds = length doc
               \<and> (\<forall>i < length doc. (\<lambda>k u pd. page_number pd = k + 1) (0 + i) (doc ! i) (pds ! i))"
  proof (rule run_pages_pointwise [OF _ run])
    fix r k u lg r'
    assume "?step r (k, u) = (lg, Inr r')"
    then have "page_appended r (k + 1) r'" by (rule pymupdf_page_step_appends)
    then show "\<exists>pd. pages r' = pages r @ [pd] \<and> page_number pd = k + 1"
      unfolding page_appended_def by blast
  qed
  then have pg: "length (pages r) = length doc"
      "\<forall>i < length doc. page_number (pages r ! i) = i + 1"
    by auto
  have "total_pages r = total_pages ?r0"
  proof (rule run_pages_invariant [where P = "\<lambda>x. total_pages x = total_pages ?r0", OF _ _ run])
    fix r u lg r'
    assume p: "total_pages r = total_pages ?r0" and s: "?step r u = (lg, Inr r')"
    obtain k page where "u = (k, page)" by (cases u)
    with s have "page_appended r (k + 1) r'" using pymupdf_page_step_appends by blast
    with p show "total_pages r' = total_pages ?r0" unfolding page_appended_def by auto
  qed simp
  with op pg show ?thesis by simp
qed

text \<open>
  Claim C10. A backend pass that completes without an exception returns exactly
  \<open>total_pages\<close> page records, as many as the document has pages, and the record at
  0-based index \<open>i\<close> has \<open>page_number\<close> \<open>i + 1\<close>: the records are in ascending page order,
  none skipped and none repeated. This holds for the pdfplumber pass and for the PyMuPDF
  pass.
\<close>

theorem backend_pass_pages_in_order:
  "(extract_with_pdfplumber env file pdf_path use_ocr preserve_tables handle_multi_column
      = (lg, Inr r)
    \<longrightarrow> pages_in_order r
        \<and> (\<exists>pdf_pages. pdfplumber_open file = Inr pdf_pages \<and> total_pages r = length pdf_pages))
   \<and> (extract_with_pymupdf env file pdf_path use_ocr preserve_tables handle_multi_column
      = (lg', Inr r')
    \<longrightarrow> pages_in_order r'
        \<and> (\<exists>doc. fitz_open file = Inr doc \<and> total_pages r' = length doc))"
proof (intro conjI impI)
  assume a: "extract_with_pdfplumber env file pdf_path use_ocr preserve_tables handle_multi_column
      = (lg, Inr r)"
  from plumber_pages [OF a] obtain pdf_pages where
    p: "pdfplumber_open file = Inr pdf_pages" "total_pages r = length pdf_pages"
      "length (pages r) = length pdf_pages"
      "\<forall>i < length pdf_pages. page_number (pages r ! i) = i + 1" by blast
  then show "pages_in_order r" by (simp add: pages_in_order_def)
  from p show "\<exists>pdf_pages. pdfplumber_open file = Inr pdf_pages \<and> total_pages r = length pdf_pages"
    by simp
next
  assume a: "extract_with_pymupdf env file pdf_path use_ocr preserve_tables handle_multi_column
      = (lg', Inr r')"
  from pymupdf_pages [OF a] obtain doc where
    p: "fitz_open file = Inr doc" "total_pages r' = length doc"
      "length (pages r') = length doc"
      "\<forall>i < length doc. page_number (pages r' ! i) = i + 1" by blast
  then show "pages_in_order r'" by (simp add: pages_in_order_def)
  from p show "\<exists>doc. fitz_open file = Inr doc \<and> total_pages r' = length doc"
    by simp
qed

lemma report_plumber_pass:
  "extract_with_pdfplumber env_ocr report_pdf ''report.pdf'' True True True =
     (report_plumber_log, Inr report_plumber_result)"
  by code_simp

lemma report_pymupdf_pass:
  "extract_with_pymupdf env_ocr report_pdf ''report.pdf'' True True True =
     (report_pymupdf_log, Inr report_pymupdf_result)"
  by code_simp

theorem backend_pass_pages_in_order_witness:
  "extract_with_pdfplumber env_ocr report_pdf ''report.pdf'' True True True =
     (report_plumber_log, Inr report_plumber_result)
   \<and> pages_in_order report_plumber_result
   \<and> map page_number (pages report_plumber_result) = [1, 2, 3]
   \<and> total_pages report_plumber_result = 3
   \<and> extract_with_pymupdf env_ocr report_pdf ''report.pdf'' True True True =
     (report_pymupdf_log, Inr report_pymupdf_result)
   \<and> pages_in_order report_pymupdf_result
   \<and> map page_number (pages report_pymupdf_result) = [1, 2]
   \<and> total_pages report_pymupdf_result = 2"
proof -
  note inst = backend_pass_pages_in_order [of env_ocr report_pdf "''report.pdf''" True True True
      report_plumber_log report_plumber_result report_pymupdf_log report_pymupdf_result]
  from inst report_plumber_pass report_pymupdf_pass
  have "pages_in_order report_plumber_result" "pages_in_order report_pymupdf_result"
    by blast+
  moreover have "map page_number (pages report_plumber_result) = [1, 2, 3]"
    "total_pages report_plumber_result = 3"
    "map page_number (pages report_pymupdf_result) = [1, 2]"
    "total_pages report_pymupdf_result = 2"
    by (simp_all add: report_plumber_result_def report_pymupdf_result_def)
  ultimately show ?thesis using report_plumber_pass report_pymupdf_pass by simp
qed

subsection \<open>Native text\<close>

lemma strip_nonempty: "strip t \<noteq> [] \<Longrightarrow> t \<noteq> []"
  by (auto simp: strip_def)

lemma extract_page_text_native:
  assumes "strip t \<noteq> []"
    and "extract_page_text (Some t) use_ocr ocr k pd r = (lg, pd', r')"
  shows "text pd' = t \<and> page_data.extraction_method pd' = ''native''
         \<and> ocr_used pd' = ocr_used pd \<and> r' = r \<and> lg = []"
  using assms strip_nonempty [OF assms(1)] by (auto simp: extract_page_text_def)

lemma plumber_page_step_native:
  assumes "plumber_page_step env use_ocr preserve_tables n r (k, page) = (lg, Inr r')"
  shows "\<exists>pd. pages r' = pages r @ [pd]
           \<and> (\<forall>t. extract_text page = Inr (Some t) \<and> strip t \<noteq> [] \<longrightarrow>
                  text pd = t \<and> page_data.extraction_method pd = ''native'' \<and> \<not> ocr_used pd)"
proof -
  from assms obtain native where nat: "extract_text page = Inr native"
    by (cases "extract_text page") (auto simp: plumber_page_step_def Let_def)
  let ?pd0 = "\<lparr> page_number = k, text = [], tables = [],
                 page_data.extraction_method = ''native'', ocr_used = False \<rparr>"
  obtain lg1 pd1 r1 where
    ept: "extract_page_text native use_ocr (perform_ocr_on_page env page) k ?pd0 r = (lg1, pd1, r1)"
    by (cases "extract_page_text native use_ocr (perform_ocr_on_page env page) k ?pd0 r") auto
  have fields: "text pd1 = t \<and> page_data.extraction_method pd1 = ''native'' \<and> \<not> ocr_used pd1"
    if "extract_text page = Inr (Some t)" "strip t \<noteq> []" for t
    using extract_page_text_native [OF that(2), of use_ocr _ k ?pd0 r lg1 pd1 r1] ept nat that(1)
    by simp
  obtain lg2 tbls where tb: "extract_tables_from_page page = (lg2, tbls)"
    by (cases "extract_tables_from_page page") auto
  show ?thesis
  proof (cases preserve_tables)
    case True
    with assms nat ept tb
    have "pages r' = pages r1 @ [pd1\<lparr> tables := tbls \<rparr>]"
      by (auto simp: plumber_page_step_def Let_def)
    moreover have "pages r1 = pages r" using extract_page_text_result [OF ept] by simp
    ultimately show ?thesis using fields
      by (intro exI [of _ "pd1\<lparr> tables := tbls \<rparr>"]) simp
  next
    case False
    with assms nat ept
    have "pages r' = pages r1 @ [pd1]"
      by (auto simp: plumber_page_step_def Let_def)
    moreover have "pages r1 = pages r" using extract_page_text_result [OF ept] by simp
    ultimately show ?thesis using fields
      by (intro exI [of _ pd1]) simp
  qed
qed

lemma pymupdf_page_step_native:
  assumes "pymupdf_page_step env use_ocr preserve_tables hmc n r (k, page) = (lg, Inr r')"
  shows "\<exists>pd. pages r' = pages r @ [pd]
           \<and> (\<forall>t. pymupdf_native_text hmc page = Inr t \<and> strip t \<noteq> [] \<longrightarrow>
                  text pd = t \<and> page_data.extraction_method pd = ''native'' \<and> \<not> ocr_used pd)"
proof -
  let ?native = "if hmc then extract_text_with_column_awareness page else get_text page"
  from assms obtain native where nat: "?native = Inr native"
    by (cases ?native) (auto simp: pymupdf_page_step_def Let_def)
  let ?pd0 = "\<lparr> page_number = k + 1, text = [], tables = [],
                 page_data.extraction_method = ''native'', ocr_used = False \<rparr>"
  obtain lg1 pd1 r1 where
    ept: "extract_page_text (Some native) use_ocr (perform_ocr_on_pymupdf_page env page) (k + 1) ?pd0 r
            = (lg1, pd1, r1)"
    by (cases "extract_page_text (Some native) use_ocr (perform_ocr_on_pymupdf_page env page) (k + 1) ?pd0 r") auto
  have fields: "text pd1 = t \<and> page_data.extraction_method pd1 = ''native'' \<and> \<not> ocr_used pd1"
    if "pymupdf_native_text hmc page = Inr t" "strip t \<noteq> []" for t
  proof -
    from that(1) nat have "native = t" by (simp add: pymupdf_native_text_def)
    with extract_page_text_native [OF that(2), of use_ocr _ "k + 1" ?pd0 r lg1 pd1 r1] ept
    show ?thesis by simp
  qed
  have pr: "pages r1 = pages r" using extract_page_text_result [OF ept] by simp
  show ?thesis
  proof (cases preserve_tables)
    case True
    with assms nat ept
    have "pages r' = pages r1 @ [pd1\<lparr> tables := [] \<rparr>]"
      by (auto simp: pymupdf_page_step_def Let_def extract_tables_from_pymupdf_page_def)
    with pr show ?thesis using fields
      by (intro exI [of _ "pd1\<lparr> tables := [] \<rparr>"]) simp
  next
    case False
    with assms nat ept
    have "pages r' = pages r1 @ [pd1]"
      by (auto simp: pymupdf_page_step_def Let_def)
    with pr show ?thesis using fields
      by (intro exI [of _ pd1]) simp
  qed
qed

text \<open>
  Claim C8. Whenever the native extraction of a PDF page yields text that is not only
  whitespace, the page record has \<open>extraction_method\<close> \<open>native\<close>, its text is the native
  text and \<open>ocr_used\<close> is false, whether OCR is enabled or not. This holds for every page
  of a completed pdfplumber pass (native text: \<open>page.extract_text()\<close>) and of a completed
  PyMuPDF pass (native text: the column-aware text or \<open>page.get_text()\<close>, by
  \<open>handle_multi_column\<close>).
\<close>

theorem native_text_kept:
  "(extract_with_pdfplumber env file pdf_path use_ocr preserve_tables handle_multi_column
      = (lg, Inr r)
    \<and> pdfplumber_open file = Inr pdf_pages \<and> i < length pdf_pages
    \<and> extract_text (pdf_pages ! i) = Inr (Some t) \<and> strip t \<noteq> []
    \<longrightarrow> text (pages r ! i) = t \<and> page_data.extraction_method (pages r ! i) = ''native''
        \<and> \<not> ocr_used (pages r ! i))
   \<and> (extract_with_pymupdf env file pdf_path use_ocr preserve_tables handle_multi_column
      = (lg', Inr r')
    \<and> fitz_open file = Inr doc \<and> j < length doc
    \<and> pymupdf_native_text handle_multi_column (doc ! j) = Inr t' \<and> strip t' \<noteq> []
    \<longrightarrow> text (pages r' ! j) = t' \<and> page_data.extraction_method (pages r' ! j) = ''native''
        \<and> \<not> ocr_used (pages r' ! j))"
proof (intro conjI impI; elim conjE)
  assume run: "extract_with_pdfplumber env file pdf_path use_ocr preserve_tables handle_multi_column
      = (lg, Inr r)"
    and op: "pdfplumber_open file = Inr pdf_pages" and i: "i < length pdf_pages"
    and t: "extract_text (pdf_pages ! i) = Inr (Some t)" "strip t \<noteq> []"
  let ?r0 = "\<lparr> file_path = pdf_path, pages = [], total_pages = length pdf_pages,
                 extraction_method = ''pdfplumber'', tables_found = 0, errors = [] \<rparr>"
  from run op have rp: "run_pages (plumber_page_step env use_ocr preserve_tables (length pdf_pages))
                      ([], ?r0) (List.enumerate 1 pdf_pages) = (lg, Inr r)"
    by (simp add: extract_with_pdfplumber_def)
  have "\<exists>pds. pages r = pages ?r0 @ pds \<and> length pds = length pdf_pages
          \<and> (\<forall>i < length pdf_pages.
                (\<lambda>k page pd. \<forall>t. extract_text page = Inr (Some t) \<and> strip t \<noteq> [] \<longrightarrow>
                    text pd = t \<and> page_data.extraction_method pd = ''native'' \<and> \<not> ocr_used pd)
                (1 + i) (pdf_pages ! i) (pds ! i))"
  proof (rule run_pages_pointwise [OF _ rp])
    fix r k u lg r'
    assume "plumber_page_step env use_ocr preserve_tables (length pdf_pages) r (k, u) = (lg, Inr r')"
    then show "\<exists>pd. pages r' = pages r @ [pd]
           \<and> (\<forall>t. extract_text u = Inr (Some t) \<and> strip t \<noteq> [] \<longrightarrow>
                  text pd = t \<and> page_data.extraction_method pd = ''native'' \<and> \<not> ocr_used pd)"
      by (rule plumber_page_step_native)
  qed
  then have "\<forall>i < length pdf_pages. \<forall>t. extract_text (pdf_pages ! i) = Inr (Some t) \<and> strip t \<noteq> [] \<longrightarrow>
        text (pages r ! i) = t \<and> page_data.extraction_method (pages r ! i) = ''native''
        \<and> \<not> ocr_used (pages r ! i)"
    by auto
  with i t show "text (pages r ! i) = t" "page_data.extraction_method (pages r ! i) = ''native''"
    "\<not> ocr_used (pages r ! i)" by blast+
next
  assume run: "extract_with_pymupdf env file pdf_path use_ocr preserve_tables handle_multi_column
      = (lg', Inr r')"
    and op: "fitz_open file = Inr doc" and j: "j < length doc"
    and t: "pymupdf_native_text handle_multi_column (doc ! j) = Inr t'" "strip t' \<noteq> []"
  let ?r0 = "\<lparr> file_path = pdf_path, pages = [], total_pages = length doc,
                 extraction_method = ''pymupdf'', tables_found = 0, errors = [] \<rparr>"
  from run op have rp: "run_pages (pymupdf_page_step env use_ocr preserve_tables handle_multi_column (length doc))
                      ([], ?r0) (List.enumerate 0 doc) = (lg', Inr r')"
    by (simp add: extract_with_pymupdf_def)
  have "\<exists>pds. pages r' = pages ?r0 @ pds \<and> length pds = length doc
          \<and> (\<forall>i < length doc.
                (\<lambda>k page pd. \<forall>t. pymupdf_native_text handle_multi_column page = Inr t \<and> strip t \<noteq> [] \<longrightarrow>
                    text pd = t \<and> page_data.extraction_method pd = ''native'' \<and> \<not> ocr_used pd)
                (0 + i) (doc ! i) (pds ! i))"
  proof (rule run_pages_pointwise [OF _ rp])
    fix r k u lg r'
    assume "pymupdf_page_step env use_ocr preserve_tables handle_multi_column (length doc) r (k, u) = (lg, Inr r')"
    then show "\<exists>pd. pages r' = pages r @ [pd]
           \<and> (\<forall>t. pymupdf_native_text handle_multi_column u = Inr t \<and> strip t \<noteq> [] \<longrightarrow>
                  text pd = t \<and> page_data.extraction_method pd = ''native'' \<and> \<not> ocr_used pd)"
      by (rule pymupdf_page_step_native)
  qed
  then have "\<forall>i < length doc. \<forall>t. pymupdf_native_text handle_multi_column (doc ! i) = Inr t \<and> strip t \<noteq> [] \<longrightarrow>
        text (pages r' ! i) = t \<and> page_data.extraction_method (pages r' ! i) = ''native''
        \<and> \<not> ocr_used (pages r' ! i)"
    by auto
  with j t show "text (pages r' ! j) = t'" "page_data.extraction_method (pages r' ! j) = ''native''"
    "\<not> ocr_used (pages r' ! j)" by blast+
qed

lemma strip_Invoice: "strip ''Invoice 42'' = ''Invoice 42''"
  by code_simp

lemma fitz_native_columns:
  "pymupdf_native_text True fitz_native_page = Inr ''left column\<newline>right column''"
  by code_simp

lemma strip_columns: "strip ''left column\<newline>right column'' = ''left column\<newline>right column''"
  by code_simp

theorem native_text_kept_witness:
  "extract_with_pdfplumber env_ocr report_pdf ''report.pdf'' True True True
      = (report_plumber_log, Inr report_plumber_result)
   \<and> pdfplumber_open report_pdf = Inr [native_page, scanned_page, unscannable_page]
   \<and> extract_text ([native_page, scanned_page, unscannable_page] ! 0) = Inr (Some ''Invoice 42'')
   \<and> strip ''Invoice 42'' \<noteq> []
   \<and> text (pages report_plumber_result ! 0) = ''Invoice 42''
   \<and> page_data.extraction_method (pages report_plumber_result ! 0) = ''native''
   \<and> \<not> ocr_used (pages report_plumber_result ! 0)
   \<and> extract_with_pymupdf env_ocr report_pdf ''report.pdf'' True True True
      = (report_pymupdf_log, Inr report_pymupdf_result)
   \<and> fitz_open report_pdf = Inr [fitz_native_page, fitz_scanned_page]
   \<and> pymupdf_native_text True ([fitz_native_page, fitz_scanned_page] ! 0)
      = Inr ''left column\<newline>right column''
   \<and> strip ''left column\<newline>right column'' \<noteq> []
   \<and> text (pages report_pymupdf_result ! 0) = ''left column\<newline>right column''
   \<and> page_data.extraction_method (pages report_pymupdf_result ! 0) = ''native''
   \<and> \<not> ocr_used (pages report_pymupdf_result ! 0)"
proof -
  have o1: "pdfplumber_open report_pdf = Inr [native_page, scanned_page, unscannable_page]"
    and o2: "fitz_open report_pdf = Inr [fitz_native_page, fitz_scanned_page]"
    by (simp_all add: report_pdf_def)
  have n1: "extract_text ([native_page, scanned_page, unscannable_page] ! 0) = Inr (Some ''Invoice 42'')"
    by (simp add: native_page_def)
  have n2: "pymupdf_native_text True ([fitz_native_page, fitz_scanned_page] ! 0)
      = Inr ''left column\<newline>right column''"
    by (simp add: fitz_native_columns)
  have s1: "strip ''Invoice 42'' \<noteq> []" by (simp add: strip_Invoice)
  have s2: "strip ''left column\<newline>right column'' \<noteq> []" by (simp only: strip_columns) simp
  note inst = native_text_kept [of env_ocr report_pdf "''report.pdf''" True True True
      report_plumber_log report_plumber_result "[native_page, scanned_page, unscannable_page]" 0
      "''Invoice 42''" report_pymupdf_log report_pymupdf_result
      "[fitz_native_page, fitz_scanned_page]" 0 "''left column\<newline>right column''"]
  from inst report_plumber_pass o1 n1 s1
  have "text (pages report_plumber_result ! 0) = ''Invoice 42''
   \<and> page_data.extraction_method (pages report_plumber_result ! 0) = ''native''
   \<and> \<not> ocr_used (pages report_plumber_result ! 0)"
    by simp
  moreover from inst report_pymupdf_pass o2 n2 s2
  have "text (pages report_pymupdf_result ! 0) = ''left column\<newline>right column''
   \<and> page_data.extraction_method (pages report_pymupdf_result ! 0) = ''native''
   \<and> \<not> ocr_used (pages report_pymupdf_result ! 0)"
    by simp
  ultimately show ?thesis
    using report_plumber_pass report_pymupdf_pass o1 o2 n1 n2 s1 s2 by simp
qed

subsection \<open>The second backend pass\<close>

lemma ocr_or_empty_log:
  "ocr_or_empty use_ocr ocr k pd r = (lg, pd', r') \<Longrightarrow> trying_pymupdf \<notin> set lg"
  by (auto simp: ocr_or_empty_def trying_pymupdf_def split: if_splits sum.splits)

lemma extract_page_text_log:
  "extract_page_text native use_ocr ocr k pd r = (lg, pd', r') \<Longrightarrow> trying_pymupdf \<notin> set lg"
  by (auto simp: extract_page_text_def split: option.splits if_splits dest: ocr_or_empty_log)

lemma extract_tables_from_page_log:
  "extract_tables_from_page page = (lg, tbls) \<Longrightarrow> trying_pymupdf \<notin> set lg"
  by (auto simp: extract_tables_from_page_def trying_pymupdf_def split: sum.splits)

lemma plumber_page_step_log:
  assumes "plumber_page_step env use_ocr preserve_tables n r u = (lg, res)"
  shows "trying_pymupdf \<notin> set lg"
proof -
  obtain k page where u: "u = (k, page)" by (cases u)
  have head: "trying_pymupdf \<noteq> (INFO, ''Processing page '' @ str_nat k @ ''/'' @ str_nat n)"
    by (simp add: trying_pymupdf_def)
  show ?thesis
  proof (cases "extract_text page")
    case (Inl e)
    with assms u head show ?thesis by (auto simp: plumber_page_step_def Let_def)
  next
    case (Inr native)
    let ?pd0 = "\<lparr> page_number = k, text = [], tables = [],
                   page_data.extraction_method = ''native'', ocr_used = False \<rparr>"
    obtain lg1 pd1 r1 where
      ept: "extract_page_text native use_ocr (perform_ocr_on_page env page) k ?pd0 r = (lg1, pd1, r1)"
      by (cases "extract_page_text native use_ocr (perform_ocr_on_page env page) k ?pd0 r") auto
    obtain lg2 tbls where tb: "extract_tables_from_page page = (lg2, tbls)"
      by (cases "extract_tables_from_page page") auto
    from assms u Inr ept tb
    have "set lg \<subseteq> {(INFO, ''Processing page '' @ str_nat k @ ''/'' @ str_nat n)} \<union> set lg1 \<union> set lg2"
      by (auto simp: plumber_page_step_def Let_def split: if_splits)
    with head extract_page_text_log [OF ept] extract_tables_from_page_log [OF tb]
    show ?thesis by blast
  qed
qed

lemma pymupdf_page_step_log:
  assumes "pymupdf_page_step env use_ocr preserve_tables hmc n r u = (lg, res)"
  shows "trying_pymupdf \<notin> set lg"
proof -
  obtain k page where u: "u = (k, page)" by (cases u)
  have head: "trying_pymupdf \<noteq> (INFO, ''Processing page '' @ str_nat (k + 1) @ ''/'' @ str_nat n)"
    by (simp add: trying_pymupdf_def)
  let ?native = "if hmc then extract_text_with_column_awareness page else get_text page"
  show ?thesis
  proof (cases ?native)
    case (Inl e)
    with assms u head show ?thesis by (auto simp: pymupdf_page_step_def Let_def)
  next
    case (Inr native)
    let ?pd0 = "\<lparr> page_number = k + 1, text = [], tables = [],
                   page_data.extraction_method = ''native'', ocr_used = False \<rparr>"
    obtain lg1 pd1 r1 where
      ept: "extract_page_text (Some native) use_ocr (perform_ocr_on_pymupdf_page env page) (k + 1) ?pd0 r
              = (lg1, pd1, r1)"
      by (cases "extract_page_text (Some native) use_ocr (perform_ocr_on_pymupdf_page env page) (k + 1) ?pd0 r") auto
    from assms u Inr ept
    have "set lg \<subseteq> {(INFO, ''Processing page '' @ str_nat (k + 1) @ ''/'' @ str_nat n)} \<union> set lg1"
      by (auto simp: pymupdf_page_step_def Let_def split: if_splits)
    with head extract_page_text_log [OF ept]
    show ?thesis by blast
  qed
qed

lemma run_pages_log:
  assumes step: "\<And>r u lg res. step r u = (lg, res) \<Longrightarrow> x \<notin> set lg"
    and "x \<notin> set lg0" and "run_pages step (lg0, r0) us = (lg, res)"
  shows "x \<notin> set lg"
  using assms(2,3)
proof (induction us arbitrary: lg0 r0)
  case Nil
  then show ?case by auto
next
  case (Cons u us)
  obtain lg1 res1 where s1: "step r0 u = (lg1, res1)" by (cases "step r0 u") auto
  from step [OF s1] Cons.prems(1) have ok: "x \<notin> set (lg0 @ lg1)" by simp
  show ?case
  proof (cases res1)
    case (Inl e)
    with s1 Cons.prems(2) ok show ?thesis by auto
  next
    case (Inr r1)
    with s1 Cons.prems(2) have "run_pages step (lg0 @ lg1, r1) us = (lg, res)" by simp
    from Cons.IH [OF ok this] show ?thesis .
  qed
qed

lemma extract_with_pdfplumber_log:
  assumes "extract_with_pdfplumber env file path uo pt hmc = (lg, res)"
  shows "trying_pymupdf \<notin> set lg"
proof (cases "pdfplumber_open file")
  case (Inl e)
  with assms show ?thesis by (auto simp: extract_with_pdfplumber_def)
next
  case (Inr pdf_pages)
  with assms have run: "run_pages (plumber_page_step env uo pt (length pdf_pages))
      ([], \<lparr> file_path = path, pages = [], total_pages = length pdf_pages,
             extraction_method = ''pdfplumber'', tables_found = 0, errors = [] \<rparr>)
      (List.enumerate 1 pdf_pages) = (lg, res)"
    by (simp add: extract_with_pdfplumber_def)
  show ?thesis
    by (rule run_pages_log [OF _ _ run]) (auto dest: plumber_page_step_log)
qed

lemma extract_with_pymupdf_log:
  assumes "extract_with_pymupdf env file path uo pt hmc = (lg, res)"
  shows "trying_pymupdf \<notin> set lg"
proof (cases "fitz_open file")
  case (Inl e)
  with assms show ?thesis by (auto simp: extract_with_pymupdf_def)
next
  case (Inr doc)
  with assms have run: "run_pages (pymupdf_page_step env uo pt hmc (length doc))
      ([], \<lparr> file_path = path, pages = [], total_pages = length doc,
             extraction_method = ''pymupdf'', tables_found = 0, errors = [] \<rparr>)
      (List.enumerate 0 doc) = (lg, res)"
    by (simp add: extract_with_pymupdf_def)
  show ?thesis
    by (rule run_pages_log [OF _ _ run]) (auto dest: pymupdf_page_step_log)
qed

lemma minimal_content_iff:
  "minimal_content r \<longleftrightarrow> (pages r = [] \<or> (\<forall>page \<in> set (pages r). strip (text page) = []))"
  by (simp add: minimal_content_def list_all_iff)

lemma fallback_log:
  assumes "pdf_exists file"
  shows "trying_pymupdf \<in> set (fst (extract_text_from_pdf env file path uo pt hmc)) \<longleftrightarrow>
           (\<exists>r1. snd (extract_with_pdfplumber env file path uo pt hmc) = Inr r1 \<and> minimal_content r1)"
proof -
  obtain lg1 res1 where p: "extract_with_pdfplumber env file path uo pt hmc = (lg1, res1)"
    by (cases "extract_with_pdfplumber env file path uo pt hmc") auto
  obtain lg2 res2 where m: "extract_with_pymupdf env file path uo pt hmc = (lg2, res2)"
    by (cases "extract_with_pymupdf env file path uo pt hmc") auto
  note n1 = extract_with_pdfplumber_log [OF p] and n2 = extract_with_pymupdf_log [OF m]
  have h: "trying_pymupdf \<noteq> (INFO, ''Processing PDF: '' @ path)"
    "\<And>e. trying_pymupdf \<noteq> (ERROR, ''Error processing PDF: '' @ e)"
    by (simp_all add: trying_pymupdf_def)
  show ?thesis
  proof (cases res1)
    case (Inl e)
    with assms p n1 h show ?thesis
      by (auto simp: extract_text_from_pdf_def Let_def)
  next
    case (Inr r1)
    show ?thesis
    proof (cases "minimal_content r1")
      case True
      with assms p m Inr show ?thesis
        by (cases res2) (auto simp: extract_text_from_pdf_def Let_def)
    next
      case False
      with assms p Inr n1 h show ?thesis
        by (auto simp: extract_text_from_pdf_def Let_def)
    qed
  qed
qed

lemma fallback_result:
  assumes "pdf_exists file"
    and "snd (extract_with_pdfplumber env file path uo pt hmc) = Inr r1" and "minimal_content r1"
  shows "snd (extract_text_from_pdf env file path uo pt hmc) =
           (case snd (extract_with_pymupdf env file path uo pt hmc) of
              Inr r2 \<Rightarrow> Inr r2
            | Inl e \<Rightarrow> Inr (r1\<lparr> errors := errors r1 @ [e] \<rparr>))"
proof -
  obtain lg1 where p: "extract_with_pdfplumber env file path uo pt hmc = (lg1, Inr r1)"
    using assms(2) by (cases "extract_with_pdfplumber env file path uo pt hmc") auto
  obtain lg2 res2 where m: "extract_with_pymupdf env file path uo pt hmc = (lg2, res2)"
    by (cases "extract_with_pymupdf env file path uo pt hmc") auto
  from assms(1,3) p m show ?thesis
    by (cases res2) (auto simp: extract_text_from_pdf_def Let_def)
qed

lemma extract_with_pdfplumber_fitz:
  "extract_with_pdfplumber env (file\<lparr> fitz_open := other \<rparr>) path uo pt hmc
     = extract_with_pdfplumber env file path uo pt hmc"
  by (simp add: extract_with_pdfplumber_def)

lemma first_pass_enough:
  assumes "pdf_exists file"
    and "extract_with_pdfplumber env file path uo pt hmc = (lg1, Inr r1)"
    and "\<not> minimal_content r1"
  shows "extract_text_from_pdf env file path uo pt hmc
           = ([(INFO, ''Processing PDF: '' @ path)] @ lg1, Inr r1)"
  using assms by (simp add: extract_text_from_pdf_def Let_def)

lemma second_pass_run:
  assumes "pdf_exists file"
    and "extract_with_pdfplumber env file path uo pt hmc = (lg1, Inr r1)"
    and "minimal_content r1"
    and "extract_with_pymupdf env file path uo pt hmc = (lg2, res2)"
  shows "extract_text_from_pdf env file path uo pt hmc
           = ([(INFO, ''Processing PDF: '' @ path)] @ lg1 @ [trying_pymupdf] @ lg2
                @ (case res2 of Inl e \<Rightarrow> [(ERROR, ''Error processing PDF: '' @ e)] | Inr r2 \<Rightarrow> []),
              (case res2 of Inl e \<Rightarrow> Inr (r1\<lparr> errors := errors r1 @ [e] \<rparr>) | Inr r2 \<Rightarrow> Inr r2))"
  using assms by (cases res2) (simp_all add: extract_text_from_pdf_def Let_def)

text \<open>
  Claim C1, amended. Take a call on an existing file in which the pdfplumber pass
  produces a result. The PyMuPDF pass is run if and only if that result has an empty page
  list or every page record's text is empty after stripping whitespace. Run means: the
  log of the call is its opening record, the log of the pdfplumber pass, the record
  \<open>Trying PyMuPDF for better text extraction...\<close>, then the log of the PyMuPDF pass
  (and the error record when that pass raises), and the result is decided by the outcome
  of that pass: when it returns, the result of the call is entirely its result; when it
  raises, the exception is caught and the result is that of the pdfplumber pass with the
  message appended to its errors. Not run means: the outcome of the call is the opening
  record, the log and the result of the pdfplumber pass, the record is not in the log,
  and nothing depends on what opening the document with PyMuPDF would give.
\<close>

theorem second_pass_policy:
  assumes "pdf_exists file"
    and "extract_with_pdfplumber env file pdf_path use_ocr preserve_tables handle_multi_column
           = (lg1, Inr r1)"
    and "extract_with_pymupdf env file pdf_path use_ocr preserve_tables handle_multi_column
           = (lg2, res2)"
  shows "(trying_pymupdf \<in> set (fst (extract_text_from_pdf env file pdf_path use_ocr
                                        preserve_tables handle_multi_column))
          \<longleftrightarrow> (pages r1 = [] \<or> (\<forall>page \<in> set (pages r1). strip (text page) = [])))
       \<and> ((pages r1 = [] \<or> (\<forall>page \<in> set (pages r1). strip (text page) = []))
          \<longrightarrow> fst (extract_text_from_pdf env file pdf_path use_ocr preserve_tables
                       handle_multi_column)
                = [(INFO, ''Processing PDF: '' @ pdf_path)] @ lg1 @ [trying_pymupdf] @ lg2
                    @ (case res2 of Inl e \<Rightarrow> [(ERROR, ''Error processing PDF: '' @ e)]
                                  | Inr r2 \<Rightarrow> [])
              \<and> (\<forall>r2. res2 = Inr r2
                    \<longrightarrow> snd (extract_text_from_pdf env file pdf_path use_ocr preserve_tables
                               handle_multi_column) = Inr r2)
              \<and> (\<forall>e. res2 = Inl e
                    \<longrightarrow> snd (extract_text_from_pdf env file pdf_path use_ocr preserve_tables
                               handle_multi_column)
                          = Inr (r1\<lparr> errors := errors r1 @ [e] \<rparr>)))
       \<and> (\<not> (pages r1 = [] \<or> (\<forall>page \<in> set (pages r1). strip (text page) = []))
          \<longrightarrow> extract_text_from_pdf env file pdf_path use_ocr preserve_tables handle_multi_column
                = ([(INFO, ''Processing PDF: '' @ pdf_path)] @ lg1, Inr r1)
              \<and> (\<forall>other. extract_text_from_pdf env (file\<lparr> fitz_open := other \<rparr>) pdf_path
                            use_ocr preserve_tables handle_multi_column
                          = extract_text_from_pdf env file pdf_path use_ocr preserve_tables
                              handle_multi_column))"
proof (intro conjI impI)
  have "snd (extract_with_pdfplumber env file pdf_path use_ocr preserve_tables handle_multi_column)
          = Inr r1"
    using assms(2) by simp
  with fallback_log [OF assms(1), of env pdf_path use_ocr preserve_tables handle_multi_column]
  have "trying_pymupdf \<in> set (fst (extract_text_from_pdf env file pdf_path use_ocr
                                        preserve_tables handle_multi_column))
          \<longleftrightarrow> minimal_content r1"
    by simp
  then show "trying_pymupdf \<in> set (fst (extract_text_from_pdf env file pdf_path use_ocr
                                        preserve_tables handle_multi_column))
          \<longleftrightarrow> (pages r1 = [] \<or> (\<forall>page \<in> set (pages r1). strip (text page) = []))"
    by (simp only: minimal_content_iff)
next
  assume "pages r1 = [] \<or> (\<forall>page \<in> set (pages r1). strip (text page) = [])"
  then have "minimal_content r1" by (simp add: minimal_content_iff)
  note run = second_pass_run [OF assms(1,2) this assms(3)]
  show "fst (extract_text_from_pdf env file pdf_path use_ocr preserve_tables
                       handle_multi_column)
                = [(INFO, ''Processing PDF: '' @ pdf_path)] @ lg1 @ [trying_pymupdf] @ lg2
                    @ (case res2 of Inl e \<Rightarrow> [(ERROR, ''Error processing PDF: '' @ e)]
                                  | Inr r2 \<Rightarrow> [])"
    by (simp add: run)
  show "\<forall>r2. res2 = Inr r2
                    \<longrightarrow> snd (extract_text_from_pdf env file pdf_path use_ocr preserve_tables
                               handle_multi_column) = Inr r2"
    by (simp add: run)
  show "\<forall>e. res2 = Inl e
                    \<longrightarrow> snd (extract_text_from_pdf env file pdf_path use_ocr preserve_tables
                               handle_multi_column)
                          = Inr (r1\<lparr> errors := errors r1 @ [e] \<rparr>)"
    by (simp add: run)
next
  assume "\<not> (pages r1 = [] \<or> (\<forall>page \<in> set (pages r1). strip (text page) = []))"
  then have nm: "\<not> minimal_content r1" by (simp add: minimal_content_iff)
  show one: "extract_text_from_pdf env file pdf_path use_ocr preserve_tables handle_multi_column
                = ([(INFO, ''Processing PDF: '' @ pdf_path)] @ lg1, Inr r1)"
    by (rule first_pass_enough [OF assms(1,2) nm])
  show "\<forall>other. extract_text_from_pdf env (file\<lparr> fitz_open := other \<rparr>) pdf_path
                            use_ocr preserve_tables handle_multi_column
                          = extract_text_from_pdf env file pdf_path use_ocr preserve_tables
                              handle_multi_column"
  proof
    fix other
    have "pdf_exists (file\<lparr> fitz_open := other \<rparr>)" using assms(1) by simp
    moreover have "extract_with_pdfplumber env (file\<lparr> fitz_open := other \<rparr>) pdf_path use_ocr
        preserve_tables handle_multi_column = (lg1, Inr r1)"
      using assms(2) by (simp only: extract_with_pdfplumber_fitz)
    ultimately have "extract_text_from_pdf env (file\<lparr> fitz_open := other \<rparr>) pdf_path use_ocr
        preserve_tables handle_multi_column
          = ([(INFO, ''Processing PDF: '' @ pdf_path)] @ lg1, Inr r1)"
      using nm by (rule first_pass_enough)
    with one show "extract_text_from_pdf env (file\<lparr> fitz_open := other \<rparr>) pdf_path
                            use_ocr preserve_tables handle_multi_column
                          = extract_text_from_pdf env file pdf_path use_ocr preserve_tables
                              handle_multi_column"
      by simp
  qed
qed

lemma scan_plumber_run:
  "extract_with_pdfplumber env_ocr scan_pdf ''scan.pdf'' False True True
     = ([(INFO, ''Processing page 1/1'')], Inr scan_plumber_result)"
  by code_simp

lemma scan_pymupdf_run:
  "extract_with_pymupdf env_ocr scan_pdf ''scan.pdf'' False True True
     = ([(INFO, ''Processing page 1/1'')], Inr scan_pymupdf_result)"
  by code_simp

lemma damaged_plumber_run:
  "extract_with_pdfplumber env_ocr damaged_pdf ''scan.pdf'' False True True
     = ([(INFO, ''Processing page 1/1'')], Inr scan_plumber_result)"
  by code_simp

lemma damaged_pymupdf_run:
  "extract_with_pymupdf env_ocr damaged_pdf ''scan.pdf'' False True True
     = ([], Inl ''cannot open broken document'')"
  by code_simp

lemma empty_plumber_run:
  "extract_with_pdfplumber env_ocr empty_pdf ''scan.pdf'' False True True
     = ([], Inr empty_plumber_result)"
  by code_simp

lemma empty_pymupdf_run:
  "extract_with_pymupdf env_ocr empty_pdf ''scan.pdf'' False True True
     = ([(INFO, ''Processing page 1/1'')], Inr scan_pymupdf_result)"
  by code_simp

lemma report_blank:
  "map (\<lambda>page. strip (text page)) (pages report_plumber_result)
     = [''Invoice 42'', ''scanned words'', []]"
  by code_simp

theorem second_pass_policy_witness:
  "pdf_exists scan_pdf
   \<and> extract_with_pdfplumber env_ocr scan_pdf ''scan.pdf'' False True True
       = ([(INFO, ''Processing page 1/1'')], Inr scan_plumber_result)
   \<and> map (\<lambda>page. strip (text page)) (pages scan_plumber_result) = [[]]
   \<and> extract_with_pymupdf env_ocr scan_pdf ''scan.pdf'' False True True
       = ([(INFO, ''Processing page 1/1'')], Inr scan_pymupdf_result)
   \<and> trying_pymupdf \<in> set (fst (extract_text_from_pdf env_ocr scan_pdf ''scan.pdf'' False True True))
   \<and> extract_text_from_pdf env_ocr scan_pdf ''scan.pdf'' False True True
       = ([(INFO, ''Processing PDF: scan.pdf''), (INFO, ''Processing page 1/1''), trying_pymupdf,
           (INFO, ''Processing page 1/1'')],
          Inr scan_pymupdf_result)
   \<and> pdf_exists damaged_pdf
   \<and> extract_with_pdfplumber env_ocr damaged_pdf ''scan.pdf'' False True True
       = ([(INFO, ''Processing page 1/1'')], Inr scan_plumber_result)
   \<and> extract_with_pymupdf env_ocr damaged_pdf ''scan.pdf'' False True True
       = ([], Inl ''cannot open broken document'')
   \<and> extract_text_from_pdf env_ocr damaged_pdf ''scan.pdf'' False True True
       = ([(INFO, ''Processing PDF: scan.pdf''), (INFO, ''Processing page 1/1''), trying_pymupdf,
           (ERROR, ''Error processing PDF: cannot open broken document'')],
          Inr (scan_plumber_result\<lparr> errors := errors scan_plumber_result
                                       @ [''cannot open broken document''] \<rparr>))
   \<and> pdf_exists empty_pdf
   \<and> extract_with_pdfplumber env_ocr empty_pdf ''scan.pdf'' False True True
       = ([], Inr empty_plumber_result)
   \<and> pages empty_plumber_result = []
   \<and> extract_with_pymupdf env_ocr empty_pdf ''scan.pdf'' False True True
       = ([(INFO, ''Processing page 1/1'')], Inr scan_pymupdf_result)
   \<and> extract_text_from_pdf env_ocr empty_pdf ''scan.pdf'' False True True
       = ([(INFO, ''Processing PDF: scan.pdf''), trying_pymupdf, (INFO, ''Processing page 1/1'')],
          Inr scan_pymupdf_result)
   \<and> pdf_exists report_pdf
   \<and> extract_with_pdfplumber env_ocr report_pdf ''report.pdf'' True True True
       = (report_plumber_log, Inr report_plumber_result)
   \<and> extract_with_pymupdf env_ocr report_pdf ''report.pdf'' True True True
       = (report_pymupdf_log, Inr report_pymupdf_result)
   \<and> pages report_plumber_result \<noteq> []
   \<and> map (\<lambda>page. strip (text page)) (pages report_plumber_result)
       = [''Invoice 42'', ''scanned words'', []]
   \<and> trying_pymupdf \<notin> set (fst (extract_text_from_pdf env_ocr report_pdf ''report.pdf'' True True True))
   \<and> extract_text_from_pdf env_ocr report_pdf ''report.pdf'' True True True
       = ((INFO, ''Processing PDF: report.pdf'') # report_plumber_log, Inr report_plumber_result)
   \<and> extract_text_from_pdf env_ocr (report_pdf\<lparr> fitz_open := Inl ''cannot open broken document'' \<rparr>)
         ''report.pdf'' True True True
       = extract_text_from_pdf env_ocr report_pdf ''report.pdf'' True True True"
proof -
  have e1: "pdf_exists scan_pdf" and e2: "pdf_exists damaged_pdf"
    and e3: "pdf_exists empty_pdf" and e4: "pdf_exists report_pdf"
    by (simp_all add: scan_pdf_def damaged_pdf_def empty_pdf_def report_pdf_def)
  note i1 = second_pass_policy [OF e1 scan_plumber_run scan_pymupdf_run]
  note i2 = second_pass_policy [OF e2 damaged_plumber_run damaged_pymupdf_run]
  note i3 = second_pass_policy [OF e3 empty_plumber_run empty_pymupdf_run]
  note i4 = second_pass_policy [OF e4 report_plumber_pass report_pymupdf_pass]
  have b1: "map (\<lambda>page. strip (text page)) (pages scan_plumber_result) = [[]]"
    by (simp add: scan_plumber_result_def strip_def)
  then have c1: "\<forall>page \<in> set (pages scan_plumber_result). strip (text page) = []"
    by (simp add: scan_plumber_result_def)
  have b3: "pages empty_plumber_result = []"
    by (simp add: empty_plumber_result_def)
  have b4: "pages report_plumber_result \<noteq> []"
    by (simp add: report_plumber_result_def)
  have c4: "\<not> (pages report_plumber_result = []
              \<or> (\<forall>page \<in> set (pages report_plumber_result). strip (text page) = []))"
    using report_blank by (auto simp: report_plumber_result_def)
  from i1 c1 have t1: "trying_pymupdf \<in> set (fst (extract_text_from_pdf env_ocr scan_pdf ''scan.pdf'' False True True))"
    by simp
  from i1 c1 have r1: "extract_text_from_pdf env_ocr scan_pdf ''scan.pdf'' False True True
       = ([(INFO, ''Processing PDF: scan.pdf''), (INFO, ''Processing page 1/1''), trying_pymupdf,
           (INFO, ''Processing page 1/1'')],
          Inr scan_pymupdf_result)"
    by (simp add: prod_eq_iff)
  from i2 c1 have r2: "extract_text_from_pdf env_ocr damaged_pdf ''scan.pdf'' False True True
       = ([(INFO, ''Processing PDF: scan.pdf''), (INFO, ''Processing page 1/1''), trying_pymupdf,
           (ERROR, ''Error processing PDF: cannot open broken document'')],
          Inr (scan_plumber_result\<lparr> errors := errors scan_plumber_result
                                       @ [''cannot open broken document''] \<rparr>))"
    by (simp add: prod_eq_iff)
  from i3 b3 have r3: "extract_text_from_pdf env_ocr empty_pdf ''scan.pdf'' False True True
       = ([(INFO, ''Processing PDF: scan.pdf''), trying_pymupdf, (INFO, ''Processing page 1/1'')],
          Inr scan_pymupdf_result)"
    by (simp add: prod_eq_iff)
  from i4 c4 have t4: "trying_pymupdf \<notin> set (fst (extract_text_from_pdf env_ocr report_pdf ''report.pdf'' True True True))"
    by blast
  from i4 c4 have r4: "extract_text_from_pdf env_ocr report_pdf ''report.pdf'' True True True
       = ((INFO, ''Processing PDF: report.pdf'') # report_plumber_log, Inr report_plumber_result)"
    by simp
  from i4 c4 have d4: "extract_text_from_pdf env_ocr (report_pdf\<lparr> fitz_open := Inl ''cannot open broken document'' \<rparr>)
         ''report.pdf'' True True True
       = extract_text_from_pdf env_ocr report_pdf ''report.pdf'' True True True"
    by blast
  show ?thesis
    using e1 scan_plumber_run b1 scan_pymupdf_run t1 r1 e2 damaged_plumber_run damaged_pymupdf_run r2
      e3 empty_plumber_run b3 empty_pymupdf_run r3 e4 report_plumber_pass report_pymupdf_pass b4
      report_blank t4 r4 d4
    by (intro conjI)
qed

text \<open>
  Claim C1 as stated fails where the second pass raises: on \<open>damaged_pdf\<close> the pdfplumber
  pass finds no text, the PyMuPDF pass is run and cannot open the document, and the result
  returned is the pdfplumber result with one error, not a result of the second pass.
\<close>

theorem second_pass_result_counterexample:
  "pdf_exists damaged_pdf
   \<and> trying_pymupdf \<in> set (fst (extract_text_from_pdf env_ocr damaged_pdf ''scan.pdf'' False True True))
   \<and> snd (extract_with_pymupdf env_ocr damaged_pdf ''scan.pdf'' False True True)
       = Inl ''cannot open broken document''
   \<and> snd (extract_text_from_pdf env_ocr damaged_pdf ''scan.pdf'' False True True)
       = Inr \<lparr> file_path = ''scan.pdf'',
               pages = [\<lparr> page_number = 1, text = [], tables = [],
                          extraction_method = ''native'', ocr_used = False \<rparr>],
               total_pages = 1, extraction_method = ''pdfplumber'', tables_found = 0,
               errors = [''cannot open broken document''] \<rparr>
   \<and> snd (extract_text_from_pdf env_ocr damaged_pdf ''scan.pdf'' False True True)
       \<noteq> snd (extract_with_pymupdf env_ocr damaged_pdf ''scan.pdf'' False True True)"
proof (intro conjI)
  show "pdf_exists damaged_pdf" by (simp add: damaged_pdf_def)
  show "trying_pymupdf \<in> set (fst (extract_text_from_pdf env_ocr damaged_pdf ''scan.pdf'' False True True))"
    by code_simp
  show "snd (extract_with_pymupdf env_ocr damaged_pdf ''scan.pdf'' False True True)
       = Inl ''cannot open broken document''"
    by code_simp
  show r: "snd (extract_text_from_pdf env_ocr damaged_pdf ''scan.pdf'' False True True)
       = Inr \<lparr> file_path = ''scan.pdf'',
               pages = [\<lparr> page_number = 1, text = [], tables = [],
                          extraction_method = ''native'', ocr_used = False \<rparr>],
               total_pages = 1, extraction_method = ''pdfplumber'', tables_found = 0,
               errors = [''cannot open broken document''] \<rparr>"
    by code_simp
  show "snd (extract_text_from_pdf env_ocr damaged_pdf ''scan.pdf'' False True True)
       \<noteq> snd (extract_with_pymupdf env_ocr damaged_pdf ''scan.pdf'' False True True)"
    unfolding r by code_simp
qed

section \<open>Properties of both pipelines\<close>

subsection \<open>Table counts\<close>

lemma filter_nonempty_all: "\<forall>t \<in> set ts. t \<noteq> [] \<Longrightarrow> filter (\<lambda>t. t \<noteq> []) ts = ts"
  by (induction ts) auto

lemma page_appended_counted:
  assumes "page_appended r k r'" and "tables_counted r"
  shows "tables_counted r'"
proof -
  from assms(1) obtain pd where
    pd: "pages r' = pages r @ [pd]" "tables_found r' = tables_found r + length (tables pd)"
      "\<forall>t \<in> set (tables pd). t \<noteq> []"
    unfolding page_appended_def by blast
  from pd(3) have "length (filter (\<lambda>t. t \<noteq> []) (tables pd)) = length (tables pd)"
    by (simp add: filter_nonempty_all)
  with pd(1,2) assms(2) show ?thesis
    by (simp add: tables_counted_def)
qed

lemma plumber_page_step_counted:
  assumes "plumber_page_step env use_ocr preserve_tables n r u = (lg, Inr r')"
    and "tables_counted r"
  shows "tables_counted r'"
proof -
  obtain k page where "u = (k, page)" by (cases u)
  with assms(1) have "page_appended r k r'" using plumber_page_step_appends by blast
  then show ?thesis using assms(2) by (rule page_appended_counted)
qed

lemma pymupdf_page_step_counted:
  assumes "pymupdf_page_step env use_ocr preserve_tables hmc n r u = (lg, Inr r')"
    and "tables_counted r"
  shows "tables_counted r'"
proof -
  obtain k page where "u = (k, page)" by (cases u)
  with assms(1) have "page_appended r (k + 1) r'" using pymupdf_page_step_appends by blast
  then show ?thesis using assms(2) by (rule page_appended_counted)
qed

lemma extract_with_pdfplumber_counted:
  assumes "extract_with_pdfplumber env file path uo pt hmc = (lg, Inr r)"
  shows "tables_counted r"
proof -
  from assms obtain pdf_pages where op: "pdfplumber_open file = Inr pdf_pages"
    by (cases "pdfplumber_open file") (auto simp: extract_with_pdfplumber_def)
  let ?r0 = "\<lparr> file_path = path, pages = [], total_pages = length pdf_pages,
                 extraction_method = ''pdfplumber'', tables_found = 0, errors = [] \<rparr>"
  from assms op have run: "run_pages (plumber_page_step env uo pt (length pdf_pages)) ([], ?r0)
                             (List.enumerate 1 pdf_pages) = (lg, Inr r)"
    by (simp add: extract_with_pdfplumber_def)
  show ?thesis
  proof (rule run_pages_invariant [where P = tables_counted, OF _ _ run])
    show "tables_counted ?r0" by (simp add: tables_counted_def)
  qed (rule plumber_page_step_counted)
qed

lemma extract_with_pymupdf_counted:
  assumes "extract_with_pymupdf env file path uo pt hmc = (lg, Inr r)"
  shows "tables_counted r"
proof -
  from assms obtain doc where op: "fitz_open file = Inr doc"
    by (cases "fitz_open file") (auto simp: extract_with_pymupdf_def)
  let ?r0 = "\<lparr> file_path = path, pages = [], total_pages = length doc,
                 extraction_method = ''pymupdf'', tables_found = 0, errors = [] \<rparr>"
  from assms op have run: "run_pages (pymupdf_page_step env uo pt hmc (length doc)) ([], ?r0)
                             (List.enumerate 0 doc) = (lg, Inr r)"
    by (simp add: extract_with_pymupdf_def)
  show ?thesis
  proof (rule run_pages_invariant [where P = tables_counted, OF _ _ run])
    show "tables_counted ?r0" by (simp add: tables_counted_def)
  qed (rule pymupdf_page_step_counted)
qed

lemma extract_text_from_pdf_counted:
  assumes "snd (extract_text_from_pdf env file path uo pt hmc) = Inr r"
  shows "tables_counted r"
proof -
  from assms have ex: "pdf_exists file"
    by (cases "pdf_exists file") (auto simp: extract_text_from_pdf_def)
  obtain lg1 res1 where p: "extract_with_pdfplumber env file path uo pt hmc = (lg1, res1)"
    by (cases "extract_with_pdfplumber env file path uo pt hmc") auto
  obtain lg2 res2 where m: "extract_with_pymupdf env file path uo pt hmc = (lg2, res2)"
    by (cases "extract_with_pymupdf env file path uo pt hmc") auto
  show ?thesis
  proof (cases res1)
    case (Inl e)
    with assms ex p show ?thesis
      by (auto simp: extract_text_from_pdf_def Let_def tables_counted_def)
  next
    case (Inr r1)
    from p Inr have c1: "tables_counted r1" using extract_with_pdfplumber_counted by blast
    show ?thesis
    proof (cases "minimal_content r1")
      case False
      with assms ex p Inr c1 show ?thesis
        by (auto simp: extract_text_from_pdf_def Let_def)
    next
      case True
      show ?thesis
      proof (cases res2)
        case (Inl e)
        with assms ex p m Inr True have "r = r1\<lparr> errors := errors r1 @ [e] \<rparr>"
          by (auto simp: extract_text_from_pdf_def Let_def)
        with c1 show ?thesis by (simp add: tables_counted_def)
      next
        case (Inr r2)
        with m have "tables_counted r2" using extract_with_pymupdf_counted by blast
        moreover from assms ex p m \<open>res1 = Inr r1\<close> True Inr have "r = r2"
          by (auto simp: extract_text_from_pdf_def Let_def)
        ultimately show ?thesis by simp
      qed
    qed
  qed
qed

lemma shape_step_tables:
  assumes "shape_step env use_ocr (tp, tb, im, oc) sh = (tp', tb', im', oc')"
    and "\<forall>t \<in> set tb. t \<noteq> []"
  shows "\<forall>t \<in> set tb'. t \<noteq> []"
  using assms
  by (cases sh) (auto simp: Let_def split: if_splits option.splits sum.splits)

lemma shapes_fold_tables:
  assumes "foldl (shape_step env use_ocr) (tp, tb, im, oc) shps = (tp', tb', im', oc')"
    and "\<forall>t \<in> set tb. t \<noteq> []"
  shows "\<forall>t \<in> set tb'. t \<noteq> []"
  using assms
proof (induction shps arbitrary: tp tb im oc)
  case Nil
  then show ?case by simp
next
  case (Cons sh shps)
  obtain tp1 tb1 im1 oc1 where s1: "shape_step env use_ocr (tp, tb, im, oc) sh = (tp1, tb1, im1, oc1)"
    by (cases "shape_step env use_ocr (tp, tb, im, oc) sh") auto
  from shape_step_tables [OF s1 Cons.prems(2)] have "\<forall>t \<in> set tb1. t \<noteq> []" .
  moreover from Cons.prems(1) s1
  have "foldl (shape_step env use_ocr) (tp1, tb1, im1, oc1) shps = (tp', tb', im', oc')" by simp
  ultimately show ?case using Cons.IH by blast
qed

lemma extract_slide_content_tables:
  assumes "extract_slide_content env sl n use_ocr use_llm = Inr sd"
  shows "\<forall>t \<in> set (slide_data.tables sd). t \<noteq> []"
proof -
  obtain tp tb im oc where
    fold: "foldl (shape_step env use_ocr) ([], [], [], False) (shapes sl) = (tp, tb, im, oc)"
    by (cases "foldl (shape_step env use_ocr) ([], [], [], False) (shapes sl)") auto
  from shapes_fold_tables [OF fold] have ne: "\<forall>t \<in> set tb. t \<noteq> []" by simp
  from assms fold have "slide_data.tables sd = tb"
    by (auto simp: extract_slide_content_def Let_def split: sum.splits if_splits)
  with ne show ?thesis by simp
qed

lemma process_slide_counted:
  assumes "slide_tables_counted r"
  shows "slide_tables_counted (process_slide env prs use_ocr use_llm r sn)"
proof (cases "py_index prs (sn - 1)")
  case (Inl e)
  with assms show ?thesis by (simp add: process_slide_def slide_tables_counted_def)
next
  case (Inr sl)
  show ?thesis
  proof (cases "extract_slide_content env sl sn use_ocr use_llm")
    case (Inl e)
    with \<open>py_index prs (sn - 1) = Inr sl\<close> assms show ?thesis
      by (simp add: process_slide_def slide_tables_counted_def)
  next
    case (Inr sd)
    from extract_slide_content_tables [OF Inr]
    have "length (filter (\<lambda>t. t \<noteq> []) (slide_data.tables sd)) = length (slide_data.tables sd)"
      by (simp add: filter_nonempty_all)
    with \<open>py_index prs (sn - 1) = Inr sl\<close> Inr assms show ?thesis
      by (simp add: process_slide_def slide_tables_counted_def)
  qed
qed

lemma process_slides_counted:
  "slide_tables_counted r \<Longrightarrow>
     slide_tables_counted (foldl (process_slide env prs use_ocr use_llm) r todo)"
  by (induction todo arbitrary: r) (simp_all add: process_slide_counted)

lemma extract_text_from_pptx_counted:
  assumes "extract_text_from_pptx env file path sel use_ocr use_llm = Inr r"
  shows "slide_tables_counted r"
proof -
  from assms obtain prs where
    "r = foldl (process_slide env prs use_ocr use_llm)
           \<lparr> ppt_result.file_path = path, slides = [], total_slides = length prs,
             slides_processed = 0, ppt_result.tables_found = 0, ppt_result.errors = [] \<rparr>
           (slides_to_process (length prs) sel)"
    by (auto simp: extract_text_from_pptx_def Let_def split: if_splits sum.splits)
  moreover have "slide_tables_counted
           \<lparr> ppt_result.file_path = path, slides = [], total_slides = length prs,
             slides_processed = 0, ppt_result.tables_found = 0, ppt_result.errors = [] \<rparr>"
    by (simp add: slide_tables_counted_def)
  ultimately show ?thesis
    by (simp only: process_slides_counted)
qed

text \<open>
  Claim C6. In both pipelines the aggregate \<open>tables_found\<close> of the result equals the sum,
  over the page or slide records of the result, of the number of non-empty tables recorded
  in the record. The equality holds for the result returned by \<open>extract_text_from_pdf\<close> and
  by \<open>extract_text_from_pptx\<close>, and it holds after each unit: an iteration of the
  pdfplumber loop, of the PyMuPDF loop and of the slide loop each keep it.
\<close>

theorem tables_found_is_sum:
  "(snd (extract_text_from_pdf env file pdf_path use_ocr preserve_tables handle_multi_column) = Inr r
      \<longrightarrow> tables_counted r)
   \<and> (tables_counted r1 \<and> plumber_page_step env use_ocr preserve_tables n r1 u = (lg, Inr r1')
      \<longrightarrow> tables_counted r1')
   \<and> (tables_counted r2 \<and> pymupdf_page_step env use_ocr preserve_tables handle_multi_column m r2 v
           = (lg', Inr r2')
      \<longrightarrow> tables_counted r2')
   \<and> (extract_text_from_pptx env pfile pptx_path slide_numbers use_ocr use_llm_formatting = Inr pr
      \<longrightarrow> slide_tables_counted pr)
   \<and> (slide_tables_counted pr1
      \<longrightarrow> slide_tables_counted (process_slide env prs_slides use_ocr use_llm_formatting pr1 slide_num))"
proof (intro conjI impI)
  assume "snd (extract_text_from_pdf env file pdf_path use_ocr preserve_tables handle_multi_column) = Inr r"
  then show "tables_counted r" by (rule extract_text_from_pdf_counted)
next
  assume "tables_counted r1 \<and> plumber_page_step env use_ocr preserve_tables n r1 u = (lg, Inr r1')"
  then show "tables_counted r1'" using plumber_page_step_counted by blast
next
  assume "tables_counted r2 \<and> pymupdf_page_step env use_ocr preserve_tables handle_multi_column m r2 v
           = (lg', Inr r2')"
  then show "tables_counted r2'" using pymupdf_page_step_counted by blast
next
  assume "extract_text_from_pptx env pfile pptx_path slide_numbers use_ocr use_llm_formatting = Inr pr"
  then show "slide_tables_counted pr" by (rule extract_text_from_pptx_counted)
next
  assume "slide_tables_counted pr1"
  then show "slide_tables_counted (process_slide env prs_slides use_ocr use_llm_formatting pr1 slide_num)"
    by (rule process_slide_counted)
qed

lemma report_extraction:
  "snd (extract_text_from_pdf env_ocr report_pdf ''report.pdf'' True True True)
     = Inr report_plumber_result"
  by code_simp

lemma deck_extraction:
  "extract_text_from_pptx env_ocr deck_file ''deck.pptx'' None True False = Inr deck_result"
  by code_simp

lemma plumber_first_step:
  "plumber_page_step env_ocr True True 3 plumber_start (1, native_page)
     = ([(INFO, ''Processing page 1/3'')], Inr plumber_after_page_1)"
  by code_simp

lemma pymupdf_first_step:
  "pymupdf_page_step env_ocr True True True 2 pymupdf_start (0, fitz_native_page)
     = ([(INFO, ''Processing page 1/2'')], Inr pymupdf_after_page_1)"
  by code_simp

theorem tables_found_is_sum_witness:
  "snd (extract_text_from_pdf env_ocr report_pdf ''report.pdf'' True True True)
     = Inr report_plumber_result
   \<and> tables_counted report_plumber_result
   \<and> tables_found report_plumber_result = 2
   \<and> tables_counted plumber_start
   \<and> plumber_page_step env_ocr True True 3 plumber_start (1, native_page)
       = ([(INFO, ''Processing page 1/3'')], Inr plumber_after_page_1)
   \<and> tables_counted plumber_after_page_1
   \<and> tables_counted pymupdf_start
   \<and> pymupdf_page_step env_ocr True True True 2 pymupdf_start (0, fitz_native_page)
       = ([(INFO, ''Processing page 1/2'')], Inr pymupdf_after_page_1)
   \<and> tables_counted pymupdf_after_page_1
   \<and> extract_text_from_pptx env_ocr deck_file ''deck.pptx'' None True False = Inr deck_result
   \<and> slide_tables_counted deck_result
   \<and> ppt_result.tables_found deck_result = 2
   \<and> slide_tables_counted deck_start
   \<and> slide_tables_counted (process_slide env_ocr deck True False deck_start 3)"
proof -
  have s1: "tables_counted plumber_start" and s2: "tables_counted pymupdf_start"
    and s3: "slide_tables_counted deck_start"
    by (simp_all add: tables_counted_def slide_tables_counted_def plumber_start_def
        pymupdf_start_def deck_start_def)
  have "tables_found report_plumber_result = 2" "ppt_result.tables_found deck_result = 2"
    by (simp_all add: report_plumber_result_def deck_result_def)
  moreover from tables_found_is_sum [of env_ocr report_pdf "''report.pdf''" True True True
      report_plumber_result plumber_start 3 "(1, native_page)" "[(INFO, ''Processing page 1/3'')]"
      plumber_after_page_1 pymupdf_start 2 "(0, fitz_native_page)"
      "[(INFO, ''Processing page 1/2'')]" pymupdf_after_page_1 deck_file "''deck.pptx''" None
      False deck_result deck_start deck 3]
    report_extraction plumber_first_step pymupdf_first_step deck_extraction s1 s2 s3
  have "tables_counted report_plumber_result" "tables_counted plumber_after_page_1"
    "tables_counted pymupdf_after_page_1" "slide_tables_counted deck_result"
    "slide_tables_counted (process_slide env_ocr deck True False deck_start 3)"
    by simp_all
  ultimately show ?thesis
    using report_extraction plumber_first_step pymupdf_first_step deck_extraction s1 s2 s3
    by simp
qed

subsection \<open>Tables as text\<close>

lemma ncols_Nil: "ncols [] = 0"
  by (simp add: ncols_def)

lemma ncols_Cons: "ncols (row # tbl) = max (length row) (ncols tbl)"
proof -
  have "Max (insert (length row) (insert 0 (set (map length tbl))))
          = max (length row) (Max (insert 0 (set (map length tbl))))"
    by (rule Max_insert) simp_all
  then show ?thesis by (simp add: ncols_def insert_commute)
qed

lemma column_width_Nil: "column_width [] j = 0"
  by (simp add: column_width_def)

lemma column_width_Cons:
  "column_width (row # tbl) j =
     (if j < length row then max (length (py_str (row ! j))) (column_width tbl j)
      else column_width tbl j)"
proof (cases "j < length row")
  case True
  let ?S = "set (map (\<lambda>row. length (py_str (row ! j))) (filter (\<lambda>row. j < length row) tbl))"
  have "Max (insert (length (py_str (row ! j))) (insert 0 ?S))
          = max (length (py_str (row ! j))) (Max (insert 0 ?S))"
    by (rule Max_insert) simp_all
  with True show ?thesis by (simp add: column_width_def insert_commute)
next
  case False
  then show ?thesis by (simp add: column_width_def)
qed

lemma ncols_ge: "row \<in> set tbl \<Longrightarrow> length row \<le> ncols tbl"
  by (induction tbl) (auto simp: ncols_Cons)

lemma widths_row_spec:
  assumes "k \<le> length ws"
  shows "\<exists>ws'. widths_row ws (List.enumerate k row) = Inr ws'
           \<and> length ws' = max (length ws) (k + length row)
           \<and> (\<forall>j. width_at ws' j =
                  (if k \<le> j \<and> j < k + length row
                   then max (width_at ws j) (length (py_str (row ! (j - k))))
                   else width_at ws j))"
  using assms
proof (induction row arbitrary: k ws)
  case Nil
  then show ?case by (simp add: max_def)
next
  case (Cons c row)
  define ws1 where "ws1 = (if k \<ge> length ws then ws @ [0] else ws)"
  define ws2 where "ws2 = ws1[k := max (ws1 ! k) (length (py_str c))]"
  from Cons.prems have k1: "k < length ws1" and len1: "length ws1 = max (length ws) (Suc k)"
    by (auto simp: ws1_def)
  have w1: "width_at ws1 j = width_at ws j" for j
    using Cons.prems by (auto simp: ws1_def width_at_def nth_append)
  have len2: "length ws2 = length ws1" by (simp add: ws2_def)
  have w2: "width_at ws2 j = (if j = k then max (width_at ws k) (length (py_str c)) else width_at ws j)" for j
    using k1 w1 [of j] w1 [of k] by (auto simp: ws2_def width_at_def)
  from k1 len2 have "Suc k \<le> length ws2" by simp
  from Cons.IH [OF this] obtain ws' where
    ih: "widths_row ws2 (List.enumerate (Suc k) row) = Inr ws'"
      "length ws' = max (length ws2) (Suc k + length row)"
      "\<forall>j. width_at ws' j =
          (if Suc k \<le> j \<and> j < Suc k + length row
           then max (width_at ws2 j) (length (py_str (row ! (j - Suc k))))
           else width_at ws2 j)"
    by blast
  have run: "widths_row ws (List.enumerate k (c # row)) = Inr ws'"
    using k1 ih(1) by (simp add: Let_def ws1_def [symmetric] ws2_def [symmetric])
  have len: "length ws' = max (length ws) (k + length (c # row))"
    using ih(2) len2 len1 by (simp add: max_def)
  have "width_at ws' j =
          (if k \<le> j \<and> j < k + length (c # row)
           then max (width_at ws j) (length (py_str ((c # row) ! (j - k))))
           else width_at ws j)" for j
  proof (cases "j = k")
    case True
    with ih(3) w2 [of j] show ?thesis by simp
  next
    case False
    show ?thesis
    proof (cases "Suc k \<le> j \<and> j < Suc k + length row")
      case True
      then have "j - k = Suc (j - Suc k)" by arith
      then have "(c # row) ! (j - k) = row ! (j - Suc k)" by simp
      with True False ih(3) w2 [of j] show ?thesis by simp
    next
      case F2: False
      with False ih(3) w2 [of j] show ?thesis by auto
    qed
  qed
  with run len show ?case by blast
qed

lemma widths_table_spec:
  "\<exists>ws'. widths_table ws tbl = Inr ws'
     \<and> length ws' = max (length ws) (ncols tbl)
     \<and> (\<forall>j. width_at ws' j = max (width_at ws j) (column_width tbl j))"
proof (induction tbl arbitrary: ws)
  case Nil
  then show ?case by (simp add: ncols_Nil column_width_Nil)
next
  case (Cons row tbl)
  from widths_row_spec [of 0 ws row] obtain ws1 where
    r: "widths_row ws (List.enumerate 0 row) = Inr ws1"
      "length ws1 = max (length ws) (length row)"
      "\<forall>j. width_at ws1 j =
          (if j < length row then max (width_at ws j) (length (py_str (row ! j)))
           else width_at ws j)"
    by auto
  from Cons.IH [of ws1] obtain ws' where
    t: "widths_table ws1 tbl = Inr ws'"
      "length ws' = max (length ws1) (ncols tbl)"
      "\<forall>j. width_at ws' j = max (width_at ws1 j) (column_width tbl j)"
    by blast
  have "widths_table ws (row # tbl) = Inr ws'" using r(1) t(1) by simp
  moreover have "length ws' = max (length ws) (ncols (row # tbl))"
    using r(2) t(2) by (simp add: ncols_Cons max_def)
  moreover have "width_at ws' j = max (width_at ws j) (column_width (row # tbl) j)" for j
    using r(3) t(3) by (simp add: column_width_Cons max_def)
  ultimately show ?case by blast
qed

lemma widths_table_column_widths: "widths_table [] tbl = Inr (column_widths tbl)"
proof -
  from widths_table_spec [of "[]" tbl] obtain ws' where
    t: "widths_table [] tbl = Inr ws'" "length ws' = ncols tbl"
      "\<forall>j. width_at ws' j = column_width tbl j"
    by (auto simp: width_at_def)
  have "ws' = column_widths tbl"
  proof (rule nth_equalityI)
    show "length ws' = length (column_widths tbl)" using t(2) by (simp add: column_widths_def)
  next
    fix j assume j: "j < length ws'"
    from t(3) have "width_at ws' j = column_width tbl j" by blast
    with j have "ws' ! j = column_width tbl j" by (simp add: width_at_def)
    with j t(2) show "ws' ! j = column_widths tbl ! j"
      by (simp add: column_widths_def)
  qed
  with t(1) show ?thesis by simp
qed

lemma format_cells_spec:
  "\<forall>p \<in> set cells. fst p < length ws \<Longrightarrow>
     format_cells ws cells = Inr (map (\<lambda>(j, c). ljust (cell_str c) (ws ! j)) cells)"
  by (induction cells) auto

lemma format_rows_spec:
  "\<forall>row \<in> set tbl. length row \<le> length ws \<Longrightarrow>
     format_rows ws tbl = Inr (map (render_row ws) tbl)"
proof (induction tbl)
  case Nil
  then show ?case by simp
next
  case (Cons row tbl)
  then have "\<forall>p \<in> set (List.enumerate 0 row). fst p < length ws"
    by (auto simp: in_set_enumerate_eq)
  then have "format_cells ws (List.enumerate 0 row)
               = Inr (map (\<lambda>(j, c). ljust (cell_str c) (ws ! j)) (List.enumerate 0 row))"
    by (rule format_cells_spec)
  with Cons show ?case by (simp add: render_row_def)
qed

lemma format_table_spec: "format_table i tbl = Inr (table_lines i tbl)"
proof (cases "tbl = []")
  case True
  then show ?thesis by (simp add: format_table_def table_lines_def)
next
  case False
  have "\<forall>row \<in> set tbl. length row \<le> length (column_widths tbl)"
    using ncols_ge by (simp add: column_widths_def)
  then have "format_rows (column_widths tbl) tbl = Inr (map (render_row (column_widths tbl)) tbl)"
    by (rule format_rows_spec)
  with False show ?thesis
    by (simp add: format_table_def table_lines_def widths_table_column_widths)
qed

lemma format_all_spec:
  "format_all its = Inr (concat (map (\<lambda>(i, tbl). table_lines i tbl) its))"
  by (induction its) (auto simp: format_table_spec)

lemma column_exists: "j < ncols tbl \<Longrightarrow> \<exists>row \<in> set tbl. j < length row"
  by (induction tbl) (auto simp: ncols_Nil ncols_Cons less_max_iff_disj)

lemma column_width_Max:
  assumes "j < ncols tbl"
  shows "column_width tbl j = Max {length (py_str (row ! j)) | row. row \<in> set tbl \<and> j < length row}"
proof -
  let ?S = "{length (py_str (row ! j)) | row. row \<in> set tbl \<and> j < length row}"
  have S: "?S = set (map (\<lambda>row. length (py_str (row ! j))) (filter (\<lambda>row. j < length row) tbl))"
    by auto
  from column_exists [OF assms] have ne: "?S \<noteq> {}" by blast
  have fin: "finite ?S" unfolding S by (rule finite_set)
  have "column_width tbl j = Max (insert 0 ?S)"
    unfolding S by (simp add: column_width_def)
  also have "\<dots> = max 0 (Max ?S)" using fin ne by (rule Max_insert)
  finally show ?thesis by simp
qed

lemma present_py_str: "c \<noteq> None \<Longrightarrow> py_str c = the c"
  by (cases c) (simp_all add: py_str_def)

lemma present_cell_str: "c \<noteq> None \<Longrightarrow> cell_str c = the c"
  by (cases c) (auto simp: cell_str_def py_str_def)

lemma text_column_width:
  assumes "\<forall>row \<in> set tbl. None \<notin> set row" and "j < ncols tbl"
  shows "column_widths tbl ! j = Max {length (the (row ! j)) | row. row \<in> set tbl \<and> j < length row}"
proof -
  have eq: "\<And>row. row \<in> set tbl \<Longrightarrow> j < length row \<Longrightarrow> py_str (row ! j) = the (row ! j)"
  proof (rule present_py_str)
    fix row assume "row \<in> set tbl" "j < length row"
    then have "row ! j \<in> set row" "None \<notin> set row" using assms(1) by simp_all
    then show "row ! j \<noteq> None" by metis
  qed
  have "{length (py_str (row ! j)) | row. row \<in> set tbl \<and> j < length row}
          = {length (the (row ! j)) | row. row \<in> set tbl \<and> j < length row}"
  proof (rule Collect_cong)
    fix x
    show "(\<exists>row. x = length (py_str (row ! j)) \<and> row \<in> set tbl \<and> j < length row)
            = (\<exists>row. x = length (the (row ! j)) \<and> row \<in> set tbl \<and> j < length row)"
    proof
      assume "\<exists>row. x = length (py_str (row ! j)) \<and> row \<in> set tbl \<and> j < length row"
      then obtain row where r: "x = length (py_str (row ! j))" "row \<in> set tbl" "j < length row"
        by blast
      with eq have "x = length (the (row ! j))" by simp
      with r(2,3) show "\<exists>row. x = length (the (row ! j)) \<and> row \<in> set tbl \<and> j < length row"
        by blast
    next
      assume "\<exists>row. x = length (the (row ! j)) \<and> row \<in> set tbl \<and> j < length row"
      then obtain row where r: "x = length (the (row ! j))" "row \<in> set tbl" "j < length row"
        by blast
      with eq have "x = length (py_str (row ! j))" by simp
      with r(2,3) show "\<exists>row. x = length (py_str (row ! j)) \<and> row \<in> set tbl \<and> j < length row"
        by blast
    qed
  qed
  with column_width_Max [OF assms(2)] assms(2) show ?thesis
    by (simp add: column_widths_def)
qed

lemma text_render_row:
  assumes "None \<notin> set row"
  shows "render_row ws row =
           join '' | '' (map (\<lambda>(j, c). ljust (the c) (ws ! j)) (List.enumerate 0 row))"
proof -
  have "map (\<lambda>(j, c). ljust (cell_str c) (ws ! j)) (List.enumerate 0 row)
          = map (\<lambda>(j, c). ljust (the c) (ws ! j)) (List.enumerate 0 row)"
  proof (rule map_cong [OF refl])
    fix p assume "p \<in> set (List.enumerate 0 row)"
    then have "fst p < length row" "row ! fst p = snd p"
      by (simp_all add: in_set_enumerate_eq)
    then have "snd p \<in> set row" using nth_mem [of "fst p" row] by simp
    with assms have "snd p \<noteq> None" by metis
    then show "(case p of (j, c) \<Rightarrow> ljust (cell_str c) (ws ! j))
                 = (case p of (j, c) \<Rightarrow> ljust (the c) (ws ! j))"
      by (cases p) (simp add: present_cell_str)
  qed
  then show ?thesis unfolding render_row_def by (rule arg_cong)
qed

text \<open>
  Claim C5, amended. \<open>format_tables_as_text\<close> returns for every list of tables, whatever the
  lengths of the rows. For tables whose cells are all strings: the report is the lines of
  the tables joined by newlines; a row is rendered from its own cells only, each
  left-justified to the width of its column and joined by \<open>" | "\<close>, so that a cell which
  a shorter row does not have is not rendered at all (the line ends after the last cell of
  the row); and each column's width is the maximum string length over the entries that
  the rows of the table have in that column.
\<close>

theorem tables_rendered:
  "(\<exists>report. format_tables_as_text tbls = Inr report)
   \<and> ((\<forall>tbl \<in> set tbls. \<forall>row \<in> set tbl. None \<notin> set row) \<longrightarrow>
        format_tables_as_text tbls =
          Inr (if tbls = [] then []
               else join ''\<newline>'' (concat (map (\<lambda>(i, tbl). table_lines i tbl)
                                                  (List.enumerate 1 tbls)))))
   \<and> ((\<forall>row \<in> set tbl. None \<notin> set row) \<longrightarrow>
        widths_table [] tbl = Inr (column_widths tbl)
        \<and> length (column_widths tbl) = ncols tbl)
   \<and> ((\<forall>row \<in> set tbl. None \<notin> set row) \<and> j < ncols tbl \<longrightarrow>
        column_widths tbl ! j =
          Max {length (the (row ! j)) | row. row \<in> set tbl \<and> j < length row})
   \<and> ((\<forall>row \<in> set tbl. None \<notin> set row) \<and> row \<in> set tbl \<longrightarrow>
        format_cells (column_widths tbl) (List.enumerate 0 row) =
          Inr (map (\<lambda>(j, c). ljust (the c) (column_widths tbl ! j)) (List.enumerate 0 row))
        \<and> render_row (column_widths tbl) row =
            join '' | '' (map (\<lambda>(j, c). ljust (the c) (column_widths tbl ! j))
                              (List.enumerate 0 row)))"
proof (intro conjI impI)
  show "\<exists>report. format_tables_as_text tbls = Inr report"
    by (simp add: format_tables_as_text_def format_all_spec)
  show "format_tables_as_text tbls =
          Inr (if tbls = [] then []
               else join ''\<newline>'' (concat (map (\<lambda>(i, tbl). table_lines i tbl)
                                                  (List.enumerate 1 tbls))))"
    by (simp add: format_tables_as_text_def format_all_spec)
  show "widths_table [] tbl = Inr (column_widths tbl)"
    by (rule widths_table_column_widths)
  show "length (column_widths tbl) = ncols tbl"
    by (simp add: column_widths_def)
next
  assume "(\<forall>row \<in> set tbl. None \<notin> set row) \<and> j < ncols tbl"
  then have "\<forall>row \<in> set tbl. None \<notin> set row" "j < ncols tbl" by simp_all
  then show "column_widths tbl ! j =
          Max {length (the (row ! j)) | row. row \<in> set tbl \<and> j < length row}"
    by (rule text_column_width)
next
  assume a: "(\<forall>row \<in> set tbl. None \<notin> set row) \<and> row \<in> set tbl"
  then have present: "None \<notin> set row" and mem: "row \<in> set tbl" by simp_all
  from mem have "length row \<le> length (column_widths tbl)"
    using ncols_ge by (simp add: column_widths_def)
  then have "\<forall>p \<in> set (List.enumerate 0 row). fst p < length (column_widths tbl)"
    by (auto simp: in_set_enumerate_eq)
  then have "format_cells (column_widths tbl) (List.enumerate 0 row) =
          Inr (map (\<lambda>(j, c). ljust (cell_str c) (column_widths tbl ! j)) (List.enumerate 0 row))"
    by (rule format_cells_spec)
  moreover have "map (\<lambda>(j, c). ljust (cell_str c) (column_widths tbl ! j)) (List.enumerate 0 row)
          = map (\<lambda>(j, c). ljust (the c) (column_widths tbl ! j)) (List.enumerate 0 row)"
  proof (rule map_cong [OF refl])
    fix p assume "p \<in> set (List.enumerate 0 row)"
    then have "fst p < length row" "row ! fst p = snd p"
      by (simp_all add: in_set_enumerate_eq)
    then have "snd p \<in> set row" using nth_mem [of "fst p" row] by simp
    with present have "snd p \<noteq> None" by metis
    then show "(case p of (j, c) \<Rightarrow> ljust (cell_str c) (column_widths tbl ! j))
                 = (case p of (j, c) \<Rightarrow> ljust (the c) (column_widths tbl ! j))"
      by (cases p) (simp add: present_cell_str)
  qed
  ultimately show "format_cells (column_widths tbl) (List.enumerate 0 row) =
          Inr (map (\<lambda>(j, c). ljust (the c) (column_widths tbl ! j)) (List.enumerate 0 row))"
    by simp
  from present show "render_row (column_widths tbl) row =
            join '' | '' (map (\<lambda>(j, c). ljust (the c) (column_widths tbl ! j))
                              (List.enumerate 0 row))"
    by (rule text_render_row)
qed

lemma ragged_widths: "column_widths ragged_table = [1, 2]"
  by code_simp

lemma ragged_ncols: "ncols ragged_table = 2"
  by code_simp

lemma ragged_report:
  "format_tables_as_text [ragged_table, padded_table] =
     Inr ''\<newline>--- Table 1 ---\<newline>a | bb\<newline>c\<newline>\<newline>--- Table 2 ---\<newline>a | bb\<newline>c |   ''"
  by code_simp

lemma ragged_lines:
  "join ''\<newline>'' (concat (map (\<lambda>(i, tbl). table_lines i tbl)
                                 (List.enumerate 1 [ragged_table, padded_table])))
     = ''\<newline>--- Table 1 ---\<newline>a | bb\<newline>c\<newline>\<newline>--- Table 2 ---\<newline>a | bb\<newline>c |   ''"
  by code_simp

theorem tables_rendered_witness:
  "map (map (\<lambda>row. None \<in> set row)) [ragged_table, padded_table]
     = [[False, False], [False, False]]
   \<and> format_tables_as_text [ragged_table, padded_table] =
       Inr (join ''\<newline>'' (concat (map (\<lambda>(i, tbl). table_lines i tbl)
                                          (List.enumerate 1 [ragged_table, padded_table]))))
   \<and> format_tables_as_text [ragged_table, padded_table] =
       Inr ''\<newline>--- Table 1 ---\<newline>a | bb\<newline>c\<newline>\<newline>--- Table 2 ---\<newline>a | bb\<newline>c |   ''
   \<and> widths_table [] ragged_table = Inr [1, 2]
   \<and> (1 :: nat) < ncols ragged_table
   \<and> Max {length (the (row ! 1)) | row. row \<in> set ragged_table \<and> 1 < length row} = 2
   \<and> [Some ''c''] \<in> set ragged_table
   \<and> format_cells (column_widths ragged_table) (List.enumerate 0 [Some ''c'']) = Inr [''c'']
   \<and> render_row (column_widths ragged_table) [Some ''c''] = ''c''"
proof -
  note inst = tables_rendered [of "[ragged_table, padded_table]" ragged_table 1 "[Some ''c'']"]
  have p: "map (map (\<lambda>row. None \<in> set row)) [ragged_table, padded_table]
     = [[False, False], [False, False]]"
    by (simp add: ragged_table_def padded_table_def)
  have h1: "\<forall>tbl \<in> set [ragged_table, padded_table]. \<forall>row \<in> set tbl. None \<notin> set row"
    by (simp add: ragged_table_def padded_table_def)
  have h2: "\<forall>row \<in> set ragged_table. None \<notin> set row"
    by (simp add: ragged_table_def)
  have c: "(1 :: nat) < ncols ragged_table" by (simp add: ragged_ncols)
  have m: "[Some ''c''] \<in> set ragged_table" by (simp add: ragged_table_def)
  from inst h1
  have f: "format_tables_as_text [ragged_table, padded_table] =
       Inr (join ''\<newline>'' (concat (map (\<lambda>(i, tbl). table_lines i tbl)
                                          (List.enumerate 1 [ragged_table, padded_table]))))"
    by simp
  then have g: "format_tables_as_text [ragged_table, padded_table] =
       Inr ''\<newline>--- Table 1 ---\<newline>a | bb\<newline>c\<newline>\<newline>--- Table 2 ---\<newline>a | bb\<newline>c |   ''"
    by (simp only: ragged_lines)
  from inst h2 have w: "widths_table [] ragged_table = Inr [1, 2]"
    by (simp add: ragged_widths)
  from inst h2 c
  have x: "Max {length (the (row ! 1)) | row. row \<in> set ragged_table \<and> 1 < length row} = 2"
    by (simp add: ragged_widths)
  from inst h2 m
  have "format_cells (column_widths ragged_table) (List.enumerate 0 [Some ''c'']) =
          Inr (map (\<lambda>(j, c). ljust (the c) (column_widths ragged_table ! j))
                   (List.enumerate 0 [Some ''c'']))
        \<and> render_row (column_widths ragged_table) [Some ''c''] =
            join '' | '' (map (\<lambda>(j, c). ljust (the c) (column_widths ragged_table ! j))
                              (List.enumerate 0 [Some ''c'']))"
    by blast
  then have r: "format_cells (column_widths ragged_table) (List.enumerate 0 [Some ''c'']) = Inr [''c'']"
    and r': "render_row (column_widths ragged_table) [Some ''c''] = ''c''"
    by (simp_all add: ragged_widths ljust_def)
  from p f g w c x m r r' show ?thesis by (intro conjI)
qed

text \<open>
  Claim C5 as stated fails on the absent cells. The second row of \<open>ragged_table\<close> lacks
  its second cell. Were that cell rendered as an empty string, the line would have a
  second cell after the separator, as the same row has in \<open>padded_table\<close>, where the
  cell is the empty string. The line is \<open>c\<close> alone: nothing is rendered for the absent
  cell, neither the separator nor an empty cell, padded or not.
\<close>

theorem absent_cell_counterexample:
  "ragged_table = [[Some ''a'', Some ''bb''], [Some ''c'']]
   \<and> padded_table = [[Some ''a'', Some ''bb''], [Some ''c'', Some []]]
   \<and> format_tables_as_text [ragged_table] = Inr ''\<newline>--- Table 1 ---\<newline>a | bb\<newline>c''
   \<and> format_tables_as_text [padded_table] = Inr ''\<newline>--- Table 1 ---\<newline>a | bb\<newline>c |   ''
   \<and> format_tables_as_text [ragged_table] \<noteq> format_tables_as_text [padded_table]
   \<and> format_tables_as_text [ragged_table] \<noteq> Inr ''\<newline>--- Table 1 ---\<newline>a | bb\<newline>c | ''"
proof (intro conjI)
  show "ragged_table = [[Some ''a'', Some ''bb''], [Some ''c'']]"
    by (rule ragged_table_def)
  show "padded_table = [[Some ''a'', Some ''bb''], [Some ''c'', Some []]]"
    by (rule padded_table_def)
  show r: "format_tables_as_text [ragged_table] = Inr ''\<newline>--- Table 1 ---\<newline>a | bb\<newline>c''"
    by code_simp
  show p: "format_tables_as_text [padded_table] = Inr ''\<newline>--- Table 1 ---\<newline>a | bb\<newline>c |   ''"
    by code_simp
  show "format_tables_as_text [ragged_table] \<noteq> format_tables_as_text [padded_table]"
    unfolding r p by simp
  show "format_tables_as_text [ragged_table] \<noteq> Inr ''\<newline>--- Table 1 ---\<newline>a | bb\<newline>c | ''"
    unfolding r by simp
qed

subsection \<open>OCR outcomes\<close>

lemma strip_Nil: "strip [] = []"
  by (simp add: strip_def)

lemma extract_page_text_no_text:
  assumes "no_native_text native"
  shows "extract_page_text native use_ocr ocr k pd r = ocr_or_empty use_ocr ocr k pd r"
  using assms by (auto simp: extract_page_text_def no_native_text_def split: option.splits)

lemma ocr_or_empty_raised:
  "ocr_or_empty True (Inl e) k pd r =
     ([(INFO, ''Performing OCR on page '' @ str_nat k),
       (ERROR, ''OCR failed on page '' @ str_nat k @ '': '' @ e)],
      pd, r\<lparr> errors := errors r @ [''OCR failed on page '' @ str_nat k @ '': '' @ e] \<rparr>)"
  by (simp add: ocr_or_empty_def)

lemma ocr_or_empty_returned:
  "ocr_or_empty True (Inr t) k pd r =
     ([(INFO, ''Performing OCR on page '' @ str_nat k)],
      pd\<lparr> text := t, page_data.extraction_method := ''ocr'', ocr_used := True \<rparr>, r)"
  by (simp add: ocr_or_empty_def)

lemma ocr_or_empty_disabled: "ocr_or_empty False ocr k pd r = ([], pd, r)"
  by (simp add: ocr_or_empty_def)

text \<open>The page record and the errors that an iteration of a page loop leaves, given the
  outcome of the text branch.\<close>

lemma plumber_page_step_after_text:
  assumes "extract_text page = Inr native"
    and "extract_page_text native use_ocr (perform_ocr_on_page env page) k
           \<lparr> page_number = k, text = [], tables = [],
             page_data.extraction_method = ''native'', ocr_used = False \<rparr> r = (lg1, pd1, r1)"
  shows "\<exists>lg r' tbls. plumber_page_step env use_ocr preserve_tables n r (k, page) = (lg, Inr r')
           \<and> pages r' = pages r1 @ [pd1\<lparr> tables := tbls \<rparr>] \<and> errors r' = errors r1"
proof (cases preserve_tables)
  case True
  obtain lg2 tbls where tb: "extract_tables_from_page page = (lg2, tbls)"
    by (cases "extract_tables_from_page page") auto
  with assms True
  have "plumber_page_step env use_ocr preserve_tables n r (k, page) =
          (([(INFO, ''Processing page '' @ str_nat k @ ''/'' @ str_nat n)] @ lg1 @ lg2),
           Inr (r1\<lparr> pages := pages r1 @ [pd1\<lparr> tables := tbls \<rparr>],
                     tables_found := tables_found r1 + length tbls \<rparr>))"
    by (simp add: plumber_page_step_def Let_def)
  then show ?thesis by force
next
  case False
  from extract_page_text_page [OF assms(2)] have same: "pd1\<lparr> tables := [] \<rparr> = pd1" by simp
  from assms False
  have "plumber_page_step env use_ocr preserve_tables n r (k, page) =
          (([(INFO, ''Processing page '' @ str_nat k @ ''/'' @ str_nat n)] @ lg1),
           Inr (r1\<lparr> pages := pages r1 @ [pd1] \<rparr>))"
    by (simp add: plumber_page_step_def Let_def)
  with same show ?thesis
    by (intro exI [of _ "[(INFO, ''Processing page '' @ str_nat k @ ''/'' @ str_nat n)] @ lg1"]
          exI [of _ "r1\<lparr> pages := pages r1 @ [pd1] \<rparr>"] exI [of _ "[]"]) simp
qed

lemma pymupdf_page_step_after_text:
  assumes "pymupdf_native_text hmc page = Inr t"
    and "extract_page_text (Some t) use_ocr (perform_ocr_on_pymupdf_page env page) (k + 1)
           \<lparr> page_number = k + 1, text = [], tables = [],
             page_data.extraction_method = ''native'', ocr_used = False \<rparr> r = (lg1, pd1, r1)"
  shows "\<exists>lg r'. pymupdf_page_step env use_ocr preserve_tables hmc n r (k, page) = (lg, Inr r')
           \<and> pages r' = pages r1 @ [pd1] \<and> errors r' = errors r1"
proof -
  from assms(1) have nat: "(if hmc then extract_text_with_column_awareness page else get_text page) = Inr t"
    by (simp add: pymupdf_native_text_def)
  from extract_page_text_page [OF assms(2)] have same: "pd1\<lparr> tables := [] \<rparr> = pd1" by simp
  show ?thesis
  proof (cases preserve_tables)
    case True
    with nat assms(2) same show ?thesis
      by (simp add: pymupdf_page_step_def Let_def extract_tables_from_pymupdf_page_def)
  next
    case False
    with nat assms(2) show ?thesis
      by (simp add: pymupdf_page_step_def Let_def)
  qed
qed

lemma run_pages_returns:
  assumes "\<forall>u \<in> set us. \<forall>r. \<exists>lg r'. step r u = (lg, Inr r')"
  shows "\<exists>lg r. run_pages step (lg0, r0) us = (lg, Inr r)"
  using assms
proof (induction us arbitrary: lg0 r0)
  case Nil
  then show ?case by simp
next
  case (Cons u us)
  then obtain lg1 r1 where "step r0 u = (lg1, Inr r1)" by fastforce
  moreover from Cons have "\<exists>lg r. run_pages step (lg0 @ lg1, r1) us = (lg, Inr r)" by simp
  ultimately show ?case by simp
qed

lemma plumber_page_step_returns:
  assumes "\<not> isl (extract_text page)"
  shows "\<exists>lg r'. plumber_page_step env use_ocr preserve_tables n r (k, page) = (lg, Inr r')"
proof -
  from assms obtain native where nat: "extract_text page = Inr native"
    by (cases "extract_text page") auto
  obtain lg1 pd1 r1 where
    "extract_page_text native use_ocr (perform_ocr_on_page env page) k
           \<lparr> page_number = k, text = [], tables = [],
             page_data.extraction_method = ''native'', ocr_used = False \<rparr> r = (lg1, pd1, r1)"
    using prod_cases3 by blast
  from plumber_page_step_after_text [OF nat this] show ?thesis by blast
qed

lemma pymupdf_page_step_returns:
  assumes "\<not> isl (pymupdf_native_text hmc page)"
  shows "\<exists>lg r'. pymupdf_page_step env use_ocr preserve_tables hmc n r (k, page) = (lg, Inr r')"
proof -
  from assms obtain t where nat: "pymupdf_native_text hmc page = Inr t"
    by (cases "pymupdf_native_text hmc page") auto
  obtain lg1 pd1 r1 where
    "extract_page_text (Some t) use_ocr (perform_ocr_on_pymupdf_page env page) (k + 1)
           \<lparr> page_number = k + 1, text = [], tables = [],
             page_data.extraction_method = ''native'', ocr_used = False \<rparr> r = (lg1, pd1, r1)"
    using prod_cases3 by blast
  from pymupdf_page_step_after_text [OF nat this] show ?thesis by blast
qed

lemma extract_with_pdfplumber_returns:
  assumes "pdfplumber_open file = Inr pdf_pages"
    and "\<forall>page \<in> set pdf_pages. \<not> isl (extract_text page)"
  shows "\<exists>lg r. extract_with_pdfplumber env file path use_ocr pt hmc = (lg, Inr r)"
proof -
  have "\<forall>u \<in> set (List.enumerate 1 pdf_pages). \<forall>r. \<exists>lg r'.
          plumber_page_step env use_ocr pt (length pdf_pages) r u = (lg, Inr r')"
  proof (intro ballI allI)
    fix u r assume "u \<in> set (List.enumerate 1 pdf_pages)"
    moreover obtain k page where "u = (k, page)" by (cases u)
    ultimately have u: "u = (k, page)" "page \<in> set pdf_pages"
      by (auto simp: enumerate_eq_zip dest: set_zip_rightD)
    with assms(2) have "\<not> isl (extract_text page)" by blast
    from plumber_page_step_returns [OF this] u(1)
    show "\<exists>lg r'. plumber_page_step env use_ocr pt (length pdf_pages) r u = (lg, Inr r')"
      by blast
  qed
  from run_pages_returns [OF this] assms(1) show ?thesis
    by (simp add: extract_with_pdfplumber_def)
qed

lemma extract_with_pymupdf_returns:
  assumes "fitz_open file = Inr doc"
    and "\<forall>page \<in> set doc. \<not> isl (pymupdf_native_text hmc page)"
  shows "\<exists>lg r. extract_with_pymupdf env file path use_ocr pt hmc = (lg, Inr r)"
proof -
  have "\<forall>u \<in> set (List.enumerate 0 doc). \<forall>r. \<exists>lg r'.
          pymupdf_page_step env use_ocr pt hmc (length doc) r u = (lg, Inr r')"
  proof (intro ballI allI)
    fix u r assume "u \<in> set (List.enumerate 0 doc)"
    moreover obtain k page where "u = (k, page)" by (cases u)
    ultimately have u: "u = (k, page)" "page \<in> set doc"
      by (auto simp: enumerate_eq_zip dest: set_zip_rightD)
    with assms(2) have "\<not> isl (pymupdf_native_text hmc page)" by blast
    from pymupdf_page_step_returns [OF this] u(1)
    show "\<exists>lg r'. pymupdf_page_step env use_ocr pt hmc (length doc) r u = (lg, Inr r')"
      by blast
  qed
  from run_pages_returns [OF this] assms(1) show ?thesis
    by (simp add: extract_with_pymupdf_def)
qed

lemma plumber_page_step_no_text:
  assumes "extract_text page = Inr native" and "no_native_text native"
  shows "\<exists>lg r' pd. plumber_page_step env use_ocr preserve_tables n r (k, page) = (lg, Inr r')
           \<and> pages r' = pages r @ [pd]
           \<and> (use_ocr \<longrightarrow>
                 (\<forall>t. perform_ocr_on_page env page = Inr t \<longrightarrow>
                    text pd = t \<and> page_data.extraction_method pd = ''ocr'' \<and> ocr_used pd
                    \<and> errors r' = errors r)
               \<and> (\<forall>e. perform_ocr_on_page env page = Inl e \<longrightarrow>
                    text pd = [] \<and> page_data.extraction_method pd = ''native'' \<and> \<not> ocr_used pd
                    \<and> errors r' = errors r @ [''OCR failed on page '' @ str_nat k @ '': '' @ e]))
           \<and> (\<not> use_ocr \<longrightarrow>
                 text pd = [] \<and> page_data.extraction_method pd = ''native'' \<and> \<not> ocr_used pd
                 \<and> errors r' = errors r)"
proof -
  let ?pd0 = "\<lparr> page_number = k, text = [], tables = [],
                 page_data.extraction_method = ''native'', ocr_used = False \<rparr>"
  let ?ocr = "perform_ocr_on_page env page"
  obtain lg1 pd1 r1 where
    ept: "extract_page_text native use_ocr ?ocr k ?pd0 r = (lg1, pd1, r1)"
    using prod_cases3 by blast
  then have oe: "ocr_or_empty use_ocr ?ocr k ?pd0 r = (lg1, pd1, r1)"
    using extract_page_text_no_text [OF assms(2)] by simp
  from plumber_page_step_after_text [OF assms(1) ept] obtain lg r' tbls where
    st: "plumber_page_step env use_ocr preserve_tables n r (k, page) = (lg, Inr r')"
      "pages r' = pages r1 @ [pd1\<lparr> tables := tbls \<rparr>]" "errors r' = errors r1"
    by blast
  have pr: "pages r1 = pages r" using extract_page_text_result [OF ept] by simp
  have "use_ocr \<longrightarrow>
                 (\<forall>t. ?ocr = Inr t \<longrightarrow>
                    text pd1 = t \<and> page_data.extraction_method pd1 = ''ocr'' \<and> ocr_used pd1
                    \<and> errors r1 = errors r)
               \<and> (\<forall>e. ?ocr = Inl e \<longrightarrow>
                    text pd1 = [] \<and> page_data.extraction_method pd1 = ''native'' \<and> \<not> ocr_used pd1
                    \<and> errors r1 = errors r @ [''OCR failed on page '' @ str_nat k @ '': '' @ e])"
    using oe by (auto simp: ocr_or_empty_returned ocr_or_empty_raised)
  moreover have "\<not> use_ocr \<longrightarrow>
                 text pd1 = [] \<and> page_data.extraction_method pd1 = ''native'' \<and> \<not> ocr_used pd1
                 \<and> errors r1 = errors r"
    using oe by (auto simp: ocr_or_empty_disabled)
  ultimately show ?thesis using st pr
    by (intro exI [of _ lg] exI [of _ r'] exI [of _ "pd1\<lparr> tables := tbls \<rparr>"]) simp
qed

lemma pymupdf_page_step_no_text:
  assumes "pymupdf_native_text hmc page = Inr t0" and "strip t0 = []"
  shows "\<exists>lg r' pd. pymupdf_page_step env use_ocr preserve_tables hmc n r (k, page) = (lg, Inr r')
           \<and> pages r' = pages r @ [pd]
           \<and> (use_ocr \<longrightarrow>
                 (\<forall>t. perform_ocr_on_pymupdf_page env page = Inr t \<longrightarrow>
                    text pd = t \<and> page_data.extraction_method pd = ''ocr'' \<and> ocr_used pd
                    \<and> errors r' = errors r)
               \<and> (\<forall>e. perform_ocr_on_pymupdf_page env page = Inl e \<longrightarrow>
                    text pd = [] \<and> page_data.extraction_method pd = ''native'' \<and> \<not> ocr_used pd
                    \<and> errors r' = errors r @ [''OCR failed on page '' @ str_nat (k + 1) @ '': '' @ e]))
           \<and> (\<not> use_ocr \<longrightarrow>
                 text pd = [] \<and> page_data.extraction_method pd = ''native'' \<and> \<not> ocr_used pd
                 \<and> errors r' = errors r)"
proof -
  let ?pd0 = "\<lparr> page_number = k + 1, text = [], tables = [],
                 page_data.extraction_method = ''native'', ocr_used = False \<rparr>"
  let ?ocr = "perform_ocr_on_pymupdf_page env page"
  from assms(2) have nn: "no_native_text (Some t0)" by (simp add: no_native_text_def)
  obtain lg1 pd1 r1 where
    ept: "extract_page_text (Some t0) use_ocr ?ocr (k + 1) ?pd0 r = (lg1, pd1, r1)"
    using prod_cases3 by blast
  then have oe: "ocr_or_empty use_ocr ?ocr (k + 1) ?pd0 r = (lg1, pd1, r1)"
    using extract_page_text_no_text [OF nn] by simp
  from pymupdf_page_step_after_text [OF assms(1) ept] obtain lg r' where
    st: "pymupdf_page_step env use_ocr preserve_tables hmc n r (k, page) = (lg, Inr r')"
      "pages r' = pages r1 @ [pd1]" "errors r' = errors r1"
    by blast
  have pr: "pages r1 = pages r" using extract_page_text_result [OF ept] by simp
  have "use_ocr \<longrightarrow>
                 (\<forall>t. ?ocr = Inr t \<longrightarrow>
                    text pd1 = t \<and> page_data.extraction_method pd1 = ''ocr'' \<and> ocr_used pd1
                    \<and> errors r1 = errors r)
               \<and> (\<forall>e. ?ocr = Inl e \<longrightarrow>
                    text pd1 = [] \<and> page_data.extraction_method pd1 = ''native'' \<and> \<not> ocr_used pd1
                    \<and> errors r1 = errors r @ [''OCR failed on page '' @ str_nat (k + 1) @ '': '' @ e])"
    using oe by (auto simp: ocr_or_empty_returned ocr_or_empty_raised)
  moreover have "\<not> use_ocr \<longrightarrow>
                 text pd1 = [] \<and> page_data.extraction_method pd1 = ''native'' \<and> \<not> ocr_used pd1
                 \<and> errors r1 = errors r"
    using oe by (auto simp: ocr_or_empty_disabled)
  ultimately show ?thesis using st pr
    by (intro exI [of _ lg] exI [of _ r'] exI [of _ pd1]) simp
qed

text \<open>
  Claim C9, amended. OCR on an embedded picture (\<open>_perform_ocr_on_image\<close>) never raises:
  it returns the recognised text, and the empty string when OCR is unavailable or when
  opening the picture or the recognition raises. OCR on a PDF page returns the recognised
  text and raises when it fails: \<open>_perform_ocr_on_page\<close> returns what the recognition
  returns on the page image and raises what the rasterisation or the recognition raises;
  \<open>_perform_ocr_on_pymupdf_page\<close> returns what the recognition returns on the opened
  pixmap and raises what the pixmap, the opening of the image or the recognition raises.
  The page loop of either backend catches the exception: the step returns, the page
  record is appended with empty text and \<open>ocr_used\<close> false, and
  \<open>OCR failed on page n: e\<close> is appended to the errors. No OCR outcome aborts a run: a
  backend pass returns whenever the document opens and the native text calls do not
  raise, a slide is extracted whenever its notes are readable, and the PowerPoint run
  returns whenever the presentation opens.
\<close>

theorem ocr_failure_contained:
  "(\<exists>t. perform_ocr_on_image env image_data = Inr t)
   \<and> (OCR_AVAILABLE env \<and> Image_open env image_data = Inr pil
        \<and> image_to_string env pil = Inr recognised
      \<longrightarrow> perform_ocr_on_image env image_data = Inr recognised)
   \<and> (\<not> OCR_AVAILABLE env \<or> isl (Image_open env image_data)
        \<or> (Image_open env image_data = Inr pil \<and> isl (image_to_string env pil))
      \<longrightarrow> perform_ocr_on_image env image_data = Inr [])
   \<and> (to_image page = Inr page_image
      \<longrightarrow> perform_ocr_on_page env page = image_to_string env page_image)
   \<and> (to_image page = Inl raised \<longrightarrow> perform_ocr_on_page env page = Inl raised)
   \<and> (get_pixmap_png fpage = Inr img_data \<and> Image_open env img_data = Inr fpage_image
      \<longrightarrow> perform_ocr_on_pymupdf_page env fpage = image_to_string env fpage_image)
   \<and> (get_pixmap_png fpage = Inl fraised \<longrightarrow> perform_ocr_on_pymupdf_page env fpage = Inl fraised)
   \<and> (get_pixmap_png fpage = Inr img_data \<and> Image_open env img_data = Inl refused
      \<longrightarrow> perform_ocr_on_pymupdf_page env fpage = Inl refused)
   \<and> (extract_text page = Inr native \<and> no_native_text native
        \<and> perform_ocr_on_page env page = Inl e
      \<longrightarrow> (\<exists>lg r' pd. plumber_page_step env True preserve_tables n r (k, page) = (lg, Inr r')
             \<and> pages r' = pages r @ [pd] \<and> text pd = [] \<and> \<not> ocr_used pd
             \<and> errors r' = errors r @ [''OCR failed on page '' @ str_nat k @ '': '' @ e]))
   \<and> (pymupdf_native_text handle_multi_column fpage = Inr ftext \<and> strip ftext = []
        \<and> perform_ocr_on_pymupdf_page env fpage = Inl e'
      \<longrightarrow> (\<exists>lg r' pd. pymupdf_page_step env True preserve_tables handle_multi_column m fr (j, fpage)
                 = (lg, Inr r')
             \<and> pages r' = pages fr @ [pd] \<and> text pd = [] \<and> \<not> ocr_used pd
             \<and> errors r' = errors fr @ [''OCR failed on page '' @ str_nat (j + 1) @ '': '' @ e']))
   \<and> (pdfplumber_open pdf = Inr pdf_pages
        \<and> (\<forall>p \<in> set pdf_pages. \<not> isl (extract_text p))
      \<longrightarrow> (\<exists>lg res. extract_with_pdfplumber env pdf pdf_path use_ocr preserve_tables
                        handle_multi_column = (lg, Inr res)))
   \<and> (fitz_open pdf = Inr doc
        \<and> (\<forall>p \<in> set doc. \<not> isl (pymupdf_native_text handle_multi_column p))
      \<longrightarrow> (\<exists>lg res. extract_with_pymupdf env pdf pdf_path use_ocr preserve_tables
                        handle_multi_column = (lg, Inr res)))
   \<and> (notes_slide sl = Inr nt
      \<longrightarrow> (\<exists>sd. extract_slide_content env sl slide_num use_ocr use_llm_formatting = Inr sd))
   \<and> (pptx_exists deck_pptx \<and> Presentation deck_pptx = Inr prs
      \<longrightarrow> (\<exists>res. extract_text_from_pptx env deck_pptx pptx_path slide_numbers use_ocr
                     use_llm_formatting = Inr res))"
proof (intro conjI impI)
  show "\<exists>t. perform_ocr_on_image env image_data = Inr t"
    by (simp add: perform_ocr_on_image_def split: sum.splits)
next
  assume "OCR_AVAILABLE env \<and> Image_open env image_data = Inr pil
        \<and> image_to_string env pil = Inr recognised"
  then show "perform_ocr_on_image env image_data = Inr recognised"
    by (simp add: perform_ocr_on_image_def)
next
  assume "\<not> OCR_AVAILABLE env \<or> isl (Image_open env image_data)
        \<or> (Image_open env image_data = Inr pil \<and> isl (image_to_string env pil))"
  then show "perform_ocr_on_image env image_data = Inr []"
    by (auto simp: perform_ocr_on_image_def isl_def split: sum.splits)
next
  assume "to_image page = Inr page_image"
  then show "perform_ocr_on_page env page = image_to_string env page_image"
    by (simp add: perform_ocr_on_page_def)
next
  assume "to_image page = Inl raised"
  then show "perform_ocr_on_page env page = Inl raised"
    by (simp add: perform_ocr_on_page_def)
next
  assume "get_pixmap_png fpage = Inr img_data \<and> Image_open env img_data = Inr fpage_image"
  then show "perform_ocr_on_pymupdf_page env fpage = image_to_string env fpage_image"
    by (simp add: perform_ocr_on_pymupdf_page_def)
next
  assume "get_pixmap_png fpage = Inl fraised"
  then show "perform_ocr_on_pymupdf_page env fpage = Inl fraised"
    by (simp add: perform_ocr_on_pymupdf_page_def)
next
  assume "get_pixmap_png fpage = Inr img_data \<and> Image_open env img_data = Inl refused"
  then show "perform_ocr_on_pymupdf_page env fpage = Inl refused"
    by (simp add: perform_ocr_on_pymupdf_page_def)
next
  assume a: "extract_text page = Inr native \<and> no_native_text native
        \<and> perform_ocr_on_page env page = Inl e"
  then have "extract_text page = Inr native" "no_native_text native" by simp_all
  from plumber_page_step_no_text [OF this, of env True preserve_tables n r k] a
  show "\<exists>lg r' pd. plumber_page_step env True preserve_tables n r (k, page) = (lg, Inr r')
             \<and> pages r' = pages r @ [pd] \<and> text pd = [] \<and> \<not> ocr_used pd
             \<and> errors r' = errors r @ [''OCR failed on page '' @ str_nat k @ '': '' @ e]"
    by auto
next
  assume a: "pymupdf_native_text handle_multi_column fpage = Inr ftext \<and> strip ftext = []
        \<and> perform_ocr_on_pymupdf_page env fpage = Inl e'"
  then have "pymupdf_native_text handle_multi_column fpage = Inr ftext" "strip ftext = []"
    by simp_all
  from pymupdf_page_step_no_text [OF this, of env True preserve_tables m fr j] a
  show "\<exists>lg r' pd. pymupdf_page_step env True preserve_tables handle_multi_column m fr (j, fpage)
                 = (lg, Inr r')
             \<and> pages r' = pages fr @ [pd] \<and> text pd = [] \<and> \<not> ocr_used pd
             \<and> errors r' = errors fr @ [''OCR failed on page '' @ str_nat (j + 1) @ '': '' @ e']"
    by auto
next
  assume "pdfplumber_open pdf = Inr pdf_pages
        \<and> (\<forall>p \<in> set pdf_pages. \<not> isl (extract_text p))"
  then show "\<exists>lg res. extract_with_pdfplumber env pdf pdf_path use_ocr preserve_tables
                        handle_multi_column = (lg, Inr res)"
    using extract_with_pdfplumber_returns by blast
next
  assume "fitz_open pdf = Inr doc
        \<and> (\<forall>p \<in> set doc. \<not> isl (pymupdf_native_text handle_multi_column p))"
  then show "\<exists>lg res. extract_with_pymupdf env pdf pdf_path use_ocr preserve_tables
                        handle_multi_column = (lg, Inr res)"
    using extract_with_pymupdf_returns by blast
next
  assume "notes_slide sl = Inr nt"
  from extract_slide_content_returns [OF this]
  show "\<exists>sd. extract_slide_content env sl slide_num use_ocr use_llm_formatting = Inr sd"
    by blast
next
  assume "pptx_exists deck_pptx \<and> Presentation deck_pptx = Inr prs"
  then show "\<exists>res. extract_text_from_pptx env deck_pptx pptx_path slide_numbers use_ocr
                     use_llm_formatting = Inr res"
    by (simp add: extract_text_from_pptx_def Let_def)
qed

lemma str_nat_3: "str_nat 3 = ''3''"
  by (simp add: str_nat.simps digit_char_def)

lemma str_nat_2: "str_nat 2 = ''2''"
  by (simp add: str_nat.simps digit_char_def)

lemma unscannable_ocr:
  "perform_ocr_on_page env_ocr unscannable_page = Inl ''tesseract failed''"
  by code_simp

lemma fitz_unscannable_ocr:
  "perform_ocr_on_pymupdf_page env_ocr fitz_unscannable_page = Inl ''tesseract failed''"
  by code_simp

lemma strip_blanks: "strip ''  '' = []"
  by code_simp

theorem ocr_failure_contained_witness:
  "OCR_AVAILABLE env_ocr \<and> Image_open env_ocr [1] = Inr (PIL_Image [1])
   \<and> image_to_string env_ocr (PIL_Image [1]) = Inr ''scanned words''
   \<and> perform_ocr_on_image env_ocr [1] = Inr ''scanned words''
   \<and> to_image unrenderable_page = Inl ''cannot render page''
   \<and> perform_ocr_on_page env_ocr unrenderable_page = Inl ''cannot render page''
   \<and> get_pixmap_png fitz_unrenderable_page = Inl ''cannot render page''
   \<and> perform_ocr_on_pymupdf_page env_ocr fitz_unrenderable_page = Inl ''cannot render page''
   \<and> Image_open env_ocr [3] = Inr (PIL_Image [3])
   \<and> isl (image_to_string env_ocr (PIL_Image [3]))
   \<and> perform_ocr_on_image env_ocr [3] = Inr []
   \<and> to_image unscannable_page = Inr (PIL_Image [3])
   \<and> perform_ocr_on_page env_ocr unscannable_page = image_to_string env_ocr (PIL_Image [3])
   \<and> extract_text unscannable_page = Inr (Some ''  '') \<and> no_native_text (Some ''  '')
   \<and> perform_ocr_on_page env_ocr unscannable_page = Inl ''tesseract failed''
   \<and> (\<exists>lg r' pd. plumber_page_step env_ocr True True 3 plumber_start (3, unscannable_page)
                     = (lg, Inr r')
        \<and> pages r' = pages plumber_start @ [pd] \<and> text pd = [] \<and> \<not> ocr_used pd
        \<and> errors r' = errors plumber_start @ [''OCR failed on page 3: tesseract failed''])
   \<and> get_pixmap_png fitz_unscannable_page = Inr [3]
   \<and> perform_ocr_on_pymupdf_page env_ocr fitz_unscannable_page
       = image_to_string env_ocr (PIL_Image [3])
   \<and> pymupdf_native_text True fitz_unscannable_page = Inr [] \<and> strip [] = []
   \<and> perform_ocr_on_pymupdf_page env_ocr fitz_unscannable_page = Inl ''tesseract failed''
   \<and> (\<exists>lg r' pd. pymupdf_page_step env_ocr True True True 2 pymupdf_start
                     (1, fitz_unscannable_page) = (lg, Inr r')
        \<and> pages r' = pages pymupdf_start @ [pd] \<and> text pd = [] \<and> \<not> ocr_used pd
        \<and> errors r' = errors pymupdf_start @ [''OCR failed on page 2: tesseract failed''])
   \<and> pdfplumber_open report_pdf = Inr [native_page, scanned_page, unscannable_page]
   \<and> map (\<lambda>p. isl (extract_text p)) [native_page, scanned_page, unscannable_page]
       = [False, False, False]
   \<and> (\<exists>lg res. extract_with_pdfplumber env_ocr report_pdf ''report.pdf'' True True True
                    = (lg, Inr res))
   \<and> fitz_open report_pdf = Inr [fitz_native_page, fitz_scanned_page]
   \<and> map (\<lambda>p. isl (pymupdf_native_text True p)) [fitz_native_page, fitz_scanned_page]
       = [False, False]
   \<and> (\<exists>lg res. extract_with_pymupdf env_ocr report_pdf ''report.pdf'' True True True
                    = (lg, Inr res))
   \<and> notes_slide broken_picture_slide = Inr None
   \<and> (\<exists>sd. extract_slide_content env_ocr broken_picture_slide 3 True False = Inr sd)
   \<and> pptx_exists picture_deck_file
   \<and> Presentation picture_deck_file
       = Inr [picture_slide, blank_picture_slide, broken_picture_slide]
   \<and> (\<exists>res. extract_text_from_pptx env_ocr picture_deck_file ''deck.pptx'' None True False
                = Inr res)"
proof -
  have av: "OCR_AVAILABLE env_ocr" by (simp add: env_ocr_def)
  have o1: "Image_open env_ocr [1] = Inr (PIL_Image [1])"
    and o3: "Image_open env_ocr [3] = Inr (PIL_Image [3])"
    by (simp_all add: env_ocr_def)
  have s1: "image_to_string env_ocr (PIL_Image [1]) = Inr ''scanned words''"
    and s3: "image_to_string env_ocr (PIL_Image [3]) = Inl ''tesseract failed''"
    by (simp_all add: env_ocr_def ocr_engine_def)
  have ti: "to_image unscannable_page = Inr (PIL_Image [3])"
    and et: "extract_text unscannable_page = Inr (Some ''  '')"
    by (simp_all add: unscannable_page_def)
  have nn: "no_native_text (Some ''  '')"
    by (simp add: no_native_text_def strip_blanks)
  have ft: "pymupdf_native_text True fitz_unscannable_page = Inr []"
    by code_simp
  have po: "pdfplumber_open report_pdf = Inr [native_page, scanned_page, unscannable_page]"
    and fo: "fitz_open report_pdf = Inr [fitz_native_page, fitz_scanned_page]"
    by (simp_all add: report_pdf_def)
  have pn: "map (\<lambda>p. isl (extract_text p)) [native_page, scanned_page, unscannable_page]
       = [False, False, False]"
    by (simp add: native_page_def scanned_page_def unscannable_page_def)
  have fn: "map (\<lambda>p. isl (pymupdf_native_text True p)) [fitz_native_page, fitz_scanned_page]
       = [False, False]"
    by code_simp
  have ns: "notes_slide broken_picture_slide = Inr None"
    by (simp add: broken_picture_slide_def)
  have pe: "pptx_exists picture_deck_file"
    and pr: "Presentation picture_deck_file
       = Inr [picture_slide, blank_picture_slide, broken_picture_slide]"
    by (simp_all add: picture_deck_file_def)
  note good = ocr_failure_contained [where env = env_ocr and image_data = "[1]"
      and pil = "PIL_Image [1]" and recognised = "''scanned words''"
      and page = unrenderable_page and raised = "''cannot render page''"
      and fpage = fitz_unrenderable_page and fraised = "''cannot render page''"]
  note inst = ocr_failure_contained [where env = env_ocr and image_data = "[3]"
      and pil = "PIL_Image [3]" and page = unscannable_page and page_image = "PIL_Image [3]"
      and native = "Some ''  ''" and e = "''tesseract failed''" and preserve_tables = True
      and n = 3 and r = plumber_start and k = 3 and handle_multi_column = True
      and fpage = fitz_unscannable_page and img_data = "[3]"
      and fpage_image = "PIL_Image [3]" and ftext = "[]" and e' = "''tesseract failed''"
      and m = 2 and fr = pymupdf_start and j = 1 and pdf = report_pdf
      and pdf_pages = "[native_page, scanned_page, unscannable_page]"
      and pdf_path = "''report.pdf''" and use_ocr = True
      and doc = "[fitz_native_page, fitz_scanned_page]" and sl = broken_picture_slide
      and nt = None and slide_num = 3 and use_llm_formatting = False
      and deck_pptx = picture_deck_file
      and prs = "[picture_slide, blank_picture_slide, broken_picture_slide]"
      and pptx_path = "''deck.pptx''" and slide_numbers = None]
  from good av o1 s1 have g1: "perform_ocr_on_image env_ocr [1] = Inr ''scanned words''"
    by simp
  have ur: "to_image unrenderable_page = Inl ''cannot render page''"
    by (simp add: unrenderable_page_def)
  have fur: "get_pixmap_png fitz_unrenderable_page = Inl ''cannot render page''"
    by (simp add: fitz_unrenderable_page_def)
  from good ur have g1a: "perform_ocr_on_page env_ocr unrenderable_page = Inl ''cannot render page''"
    by simp
  from good fur
  have g1b: "perform_ocr_on_pymupdf_page env_ocr fitz_unrenderable_page = Inl ''cannot render page''"
    by simp
  have px: "get_pixmap_png fitz_unscannable_page = Inr [3]"
    by (simp add: fitz_unscannable_page_def)
  from inst px o3
  have g4a: "perform_ocr_on_pymupdf_page env_ocr fitz_unscannable_page
       = image_to_string env_ocr (PIL_Image [3])"
    by simp
  from inst av o3 s3 have g3: "perform_ocr_on_image env_ocr [3] = Inr []"
    by simp
  from inst ti have g4: "perform_ocr_on_page env_ocr unscannable_page
      = image_to_string env_ocr (PIL_Image [3])"
    by simp
  from inst et nn unscannable_ocr
  have g5: "\<exists>lg r' pd. plumber_page_step env_ocr True True 3 plumber_start (3, unscannable_page)
                     = (lg, Inr r')
        \<and> pages r' = pages plumber_start @ [pd] \<and> text pd = [] \<and> \<not> ocr_used pd
        \<and> errors r' = errors plumber_start @ [''OCR failed on page 3: tesseract failed'']"
    by (simp add: str_nat_3)
  note c6 = inst [THEN conjunct2, THEN conjunct2, THEN conjunct2, THEN conjunct2,
      THEN conjunct2, THEN conjunct2, THEN conjunct2, THEN conjunct2, THEN conjunct2,
      THEN conjunct1]
  from c6 have "\<exists>lg r' pd. pymupdf_page_step env_ocr True True True 2 pymupdf_start
                 (1, fitz_unscannable_page) = (lg, Inr r')
             \<and> pages r' = pages pymupdf_start @ [pd] \<and> text pd = [] \<and> \<not> ocr_used pd
             \<and> errors r' = errors pymupdf_start
                 @ [''OCR failed on page '' @ str_nat (1 + 1) @ '': '' @ ''tesseract failed'']"
    by (rule mp) (simp add: ft strip_Nil fitz_unscannable_ocr)
  then have g6: "\<exists>lg r' pd. pymupdf_page_step env_ocr True True True 2 pymupdf_start
                     (1, fitz_unscannable_page) = (lg, Inr r')
        \<and> pages r' = pages pymupdf_start @ [pd] \<and> text pd = [] \<and> \<not> ocr_used pd
        \<and> errors r' = errors pymupdf_start @ [''OCR failed on page 2: tesseract failed'']"
    by (simp only: one_add_one str_nat_2 append.simps)
  from pn have "\<forall>p \<in> set [native_page, scanned_page, unscannable_page]. \<not> isl (extract_text p)"
    by simp
  with inst po
  have g7: "\<exists>lg res. extract_with_pdfplumber env_ocr report_pdf ''report.pdf'' True True True
                    = (lg, Inr res)"
    by simp
  from fn have "\<forall>p \<in> set [fitz_native_page, fitz_scanned_page].
                  \<not> isl (pymupdf_native_text True p)"
    by simp
  with inst fo
  have g8: "\<exists>lg res. extract_with_pymupdf env_ocr report_pdf ''report.pdf'' True True True
                    = (lg, Inr res)"
    by simp
  from inst ns
  have g9: "\<exists>sd. extract_slide_content env_ocr broken_picture_slide 3 True False = Inr sd"
    by simp
  from inst pe pr
  have g10: "\<exists>res. extract_text_from_pptx env_ocr picture_deck_file ''deck.pptx'' None True False
                = Inr res"
    by simp
  show ?thesis
    using av o1 s1 g1 ur g1a fur g1b px g4a o3 s3 g3 ti g4 et nn unscannable_ocr g5 ft strip_Nil
      fitz_unscannable_ocr g6 po pn g7 fo fn g8 ns g9 pe pr g10
    by simp
qed

theorem page_ocr_raises_counterexample:
  "to_image unscannable_page = Inr (PIL_Image [3])
   \<and> image_to_string env_ocr (PIL_Image [3]) = Inl ''tesseract failed''
   \<and> perform_ocr_on_page env_ocr unscannable_page = Inl ''tesseract failed''
   \<and> perform_ocr_on_page env_ocr unscannable_page \<noteq> Inr []"
proof -
  have "to_image unscannable_page = Inr (PIL_Image [3])"
    by (simp add: unscannable_page_def)
  moreover have "image_to_string env_ocr (PIL_Image [3]) = Inl ''tesseract failed''"
    by (simp add: env_ocr_def ocr_engine_def)
  moreover have "perform_ocr_on_page env_ocr unscannable_page = Inl ''tesseract failed''"
    by code_simp
  ultimately show ?thesis by simp
qed

subsection \<open>Units that contain only images\<close>

lemma shape_step_flag:
  "snd (snd (snd (shape_step env use_ocr st sh))) =
     (snd (snd (snd st))
      \<or> (use_ocr \<and> OCR_AVAILABLE env
          \<and> (\<exists>b t. sh = Picture (Inr b) \<and> b \<noteq> [] \<and> perform_ocr_on_image env b = Inr t
                     \<and> t \<noteq> [])))"
proof -
  obtain tp ta ia fl where st: "st = (tp, ta, ia, fl)" by (cases st) auto
  show ?thesis
  proof (cases sh)
    case (Picture shape_image)
    then show ?thesis unfolding st
      by (cases shape_image)
         (auto simp: extract_image_from_shape_def split: sum.splits)
  qed (auto simp: st Let_def split: option.splits sum.splits)
qed

lemma shapes_fold_flag:
  "snd (snd (snd (foldl (shape_step env use_ocr) st shs))) =
     (snd (snd (snd st))
      \<or> (use_ocr \<and> OCR_AVAILABLE env
          \<and> (\<exists>b t. Picture (Inr b) \<in> set shs \<and> b \<noteq> [] \<and> perform_ocr_on_image env b = Inr t
                     \<and> t \<noteq> [])))"
proof (induction shs arbitrary: st)
  case Nil
  then show ?case by simp
next
  case (Cons sh shs)
  show ?case
    unfolding foldl_Cons Cons.IH shape_step_flag [of env use_ocr st sh]
    by auto
qed

lemma pictures_without_ocr:
  "list_all is_picture shs \<Longrightarrow> foldl (shape_step env False) st shs = st"
proof (induction shs arbitrary: st)
  case Nil
  then show ?case by simp
next
  case (Cons sh shs)
  obtain tp ta ia fl where st: "st = (tp, ta, ia, fl)" by (cases st) auto
  from Cons.prems obtain shape_image where "sh = Picture shape_image"
    by (cases sh) simp_all
  then have "shape_step env False st sh = st" by (simp add: st)
  with Cons show ?case by simp
qed

lemma format_text_parts_Nil: "format_text_parts [] = []"
  by (simp add: format_text_parts_def)

lemma slide_ocr_flag:
  assumes "notes_slide sl = Inr nt"
  shows "\<exists>sd. extract_slide_content env sl slide_num use_ocr use_llm_formatting = Inr sd
           \<and> (slide_data.ocr_used sd \<longleftrightarrow>
                use_ocr \<and> OCR_AVAILABLE env
                \<and> (\<exists>b t. Picture (Inr b) \<in> set (shapes sl) \<and> b \<noteq> []
                           \<and> perform_ocr_on_image env b = Inr t \<and> t \<noteq> []))"
proof -
  obtain tp ta ia fl where
    fd: "foldl (shape_step env use_ocr) ([], [], [], False) (shapes sl) = (tp, ta, ia, fl)"
    using prod_cases4 by blast
  from shapes_fold_flag [of env use_ocr "([], [], [], False)" "shapes sl"] fd
  have fl: "fl \<longleftrightarrow> use_ocr \<and> OCR_AVAILABLE env
                \<and> (\<exists>b t. Picture (Inr b) \<in> set (shapes sl) \<and> b \<noteq> []
                           \<and> perform_ocr_on_image env b = Inr t \<and> t \<noteq> [])"
    by simp
  have "\<exists>sd. extract_slide_content env sl slide_num use_ocr use_llm_formatting = Inr sd
          \<and> slide_data.ocr_used sd = fl"
    using assms fd
    by (simp add: extract_slide_content_def Let_def split: sum.splits)
  with fl show ?thesis by blast
qed

lemma slide_without_ocr:
  assumes "only_pictures sl" and "notes_slide sl = Inr nt"
  shows "\<exists>sd. extract_slide_content env sl slide_num False use_llm_formatting = Inr sd
           \<and> \<not> slide_data.ocr_used sd
           \<and> (\<not> llm_applied env use_llm_formatting \<longrightarrow> slide_data.text sd = [])"
proof -
  from assms(1) have fd: "foldl (shape_step env False) ([], [], [], False) (shapes sl)
      = ([], [], [], False)"
    unfolding only_pictures_def by (rule pictures_without_ocr)
  show ?thesis
    using assms(2) fd
    by (auto simp: extract_slide_content_def Let_def llm_applied_def format_text_parts_Nil
             split: sum.splits)
qed

lemma readable_slide_no_error:
  assumes "1 \<le> sn" "sn \<le> int (length prs)" "slide_readable prs sn"
  shows "ppt_result.errors (process_slide env prs use_ocr use_llm_formatting res sn)
           = ppt_result.errors res"
proof -
  from process_slide_readable [OF assms, of env use_ocr use_llm_formatting res]
  obtain sd where "process_slide env prs use_ocr use_llm_formatting res sn =
           res\<lparr> slides := slides res @ [sd],
               slides_processed := slides_processed res + 1,
               ppt_result.tables_found := ppt_result.tables_found res + length (slide_data.tables sd) \<rparr>"
    by blast
  then show ?thesis by simp
qed

text \<open>
  Claim C2, amended. A PDF page has no native text when the native text call of the
  backend returns nothing or only whitespace. For such a page, in either backend: with
  OCR enabled and the OCR of the page returning a text, the page record has \<open>ocr_used\<close>
  true, \<open>extraction_method\<close> \<open>ocr\<close> and that text, and the errors are unchanged; with
  OCR enabled and the OCR of the page raising, the page record keeps an empty text,
  \<open>ocr_used\<close> false and \<open>extraction_method\<close> \<open>native\<close>, and \<open>OCR failed on page n: e\<close>
  is appended to the errors; with OCR disabled, the page record has an empty text and
  \<open>ocr_used\<close> false, and the errors are unchanged. For a slide whose notes are readable,
  \<open>ocr_used\<close> of the slide record is true exactly when OCR is enabled and available and
  the OCR of at least one non-empty picture of the slide returns a non-empty text. For a
  slide with only pictures and OCR disabled, \<open>ocr_used\<close> is false, and the text is empty
  when the language-model pass is not applied; processing a readable slide appends
  nothing to the errors.
\<close>

theorem image_only_units:
  "(extract_text page = Inr native \<and> no_native_text native
      \<and> perform_ocr_on_page env page = Inr ocr_text
    \<longrightarrow> (\<exists>lg r' pd. plumber_page_step env True preserve_tables n r (k, page) = (lg, Inr r')
           \<and> pages r' = pages r @ [pd] \<and> ocr_used pd
           \<and> page_data.extraction_method pd = ''ocr'' \<and> text pd = ocr_text
           \<and> errors r' = errors r))
   \<and> (extract_text page = Inr native \<and> no_native_text native
      \<and> perform_ocr_on_page env page = Inl e
    \<longrightarrow> (\<exists>lg r' pd. plumber_page_step env True preserve_tables n r (k, page) = (lg, Inr r')
           \<and> pages r' = pages r @ [pd] \<and> \<not> ocr_used pd
           \<and> page_data.extraction_method pd = ''native'' \<and> text pd = []
           \<and> errors r' = errors r @ [''OCR failed on page '' @ str_nat k @ '': '' @ e]))
   \<and> (extract_text page = Inr native \<and> no_native_text native
    \<longrightarrow> (\<exists>lg r' pd. plumber_page_step env False preserve_tables n r (k, page) = (lg, Inr r')
           \<and> pages r' = pages r @ [pd] \<and> \<not> ocr_used pd
           \<and> page_data.extraction_method pd = ''native'' \<and> text pd = []
           \<and> errors r' = errors r))
   \<and> (pymupdf_native_text handle_multi_column fpage = Inr ftext \<and> strip ftext = []
      \<and> perform_ocr_on_pymupdf_page env fpage = Inr focr_text
    \<longrightarrow> (\<exists>lg r' pd. pymupdf_page_step env True preserve_tables handle_multi_column m fr
                        (j, fpage) = (lg, Inr r')
           \<and> pages r' = pages fr @ [pd] \<and> ocr_used pd
           \<and> page_data.extraction_method pd = ''ocr'' \<and> text pd = focr_text
           \<and> errors r' = errors fr))
   \<and> (pymupdf_native_text handle_multi_column fpage = Inr ftext \<and> strip ftext = []
      \<and> perform_ocr_on_pymupdf_page env fpage = Inl fe
    \<longrightarrow> (\<exists>lg r' pd. pymupdf_page_step env True preserve_tables handle_multi_column m fr
                        (j, fpage) = (lg, Inr r')
           \<and> pages r' = pages fr @ [pd] \<and> \<not> ocr_used pd
           \<and> page_data.extraction_method pd = ''native'' \<and> text pd = []
           \<and> errors r' = errors fr @ [''OCR failed on page '' @ str_nat (j + 1) @ '': '' @ fe]))
   \<and> (pymupdf_native_text handle_multi_column fpage = Inr ftext \<and> strip ftext = []
    \<longrightarrow> (\<exists>lg r' pd. pymupdf_page_step env False preserve_tables handle_multi_column m fr
                        (j, fpage) = (lg, Inr r')
           \<and> pages r' = pages fr @ [pd] \<and> \<not> ocr_used pd
           \<and> page_data.extraction_method pd = ''native'' \<and> text pd = []
           \<and> errors r' = errors fr))
   \<and> (notes_slide sl = Inr nt
    \<longrightarrow> (\<exists>sd. extract_slide_content env sl slide_num use_ocr use_llm_formatting = Inr sd
           \<and> (slide_data.ocr_used sd \<longleftrightarrow>
                use_ocr \<and> OCR_AVAILABLE env
                \<and> (\<exists>b t. Picture (Inr b) \<in> set (shapes sl) \<and> b \<noteq> []
                           \<and> perform_ocr_on_image env b = Inr t \<and> t \<noteq> []))))
   \<and> (only_pictures sl \<and> notes_slide sl = Inr nt
    \<longrightarrow> (\<exists>sd. extract_slide_content env sl slide_num False use_llm_formatting = Inr sd
           \<and> \<not> slide_data.ocr_used sd
           \<and> (\<not> llm_applied env use_llm_formatting \<longrightarrow> slide_data.text sd = [])))
   \<and> (1 \<le> sn \<and> sn \<le> int (length prs) \<and> slide_readable prs sn
    \<longrightarrow> ppt_result.errors (process_slide env prs use_ocr use_llm_formatting res sn)
          = ppt_result.errors res)"
proof (intro conjI impI)
  assume a: "extract_text page = Inr native \<and> no_native_text native
      \<and> perform_ocr_on_page env page = Inr ocr_text"
  then have "extract_text page = Inr native" "no_native_text native" by simp_all
  from plumber_page_step_no_text [OF this, of env True preserve_tables n r k] a
  show "\<exists>lg r' pd. plumber_page_step env True preserve_tables n r (k, page) = (lg, Inr r')
           \<and> pages r' = pages r @ [pd] \<and> ocr_used pd
           \<and> page_data.extraction_method pd = ''ocr'' \<and> text pd = ocr_text
           \<and> errors r' = errors r"
    by auto
next
  assume a: "extract_text page = Inr native \<and> no_native_text native
      \<and> perform_ocr_on_page env page = Inl e"
  then have "extract_text page = Inr native" "no_native_text native" by simp_all
  from plumber_page_step_no_text [OF this, of env True preserve_tables n r k] a
  show "\<exists>lg r' pd. plumber_page_step env True preserve_tables n r (k, page) = (lg, Inr r')
           \<and> pages r' = pages r @ [pd] \<and> \<not> ocr_used pd
           \<and> page_data.extraction_method pd = ''native'' \<and> text pd = []
           \<and> errors r' = errors r @ [''OCR failed on page '' @ str_nat k @ '': '' @ e]"
    by auto
next
  assume a: "extract_text page = Inr native \<and> no_native_text native"
  then have "extract_text page = Inr native" "no_native_text native" by simp_all
  from plumber_page_step_no_text [OF this, of env False preserve_tables n r k]
  show "\<exists>lg r' pd. plumber_page_step env False preserve_tables n r (k, page) = (lg, Inr r')
           \<and> pages r' = pages r @ [pd] \<and> \<not> ocr_used pd
           \<and> page_data.extraction_method pd = ''native'' \<and> text pd = []
           \<and> errors r' = errors r"
    by auto
next
  assume a: "pymupdf_native_text handle_multi_column fpage = Inr ftext \<and> strip ftext = []
      \<and> perform_ocr_on_pymupdf_page env fpage = Inr focr_text"
  then have "pymupdf_native_text handle_multi_column fpage = Inr ftext" "strip ftext = []"
    by simp_all
  from pymupdf_page_step_no_text [OF this, of env True preserve_tables m fr j] a
  show "\<exists>lg r' pd. pymupdf_page_step env True preserve_tables handle_multi_column m fr
                        (j, fpage) = (lg, Inr r')
           \<and> pages r' = pages fr @ [pd] \<and> ocr_used pd
           \<and> page_data.extraction_method pd = ''ocr'' \<and> text pd = focr_text
           \<and> errors r' = errors fr"
    by auto
next
  assume a: "pymupdf_native_text handle_multi_column fpage = Inr ftext \<and> strip ftext = []
      \<and> perform_ocr_on_pymupdf_page env fpage = Inl fe"
  then have "pymupdf_native_text handle_multi_column fpage = Inr ftext" "strip ftext = []"
    by simp_all
  from pymupdf_page_step_no_text [OF this, of env True preserve_tables m fr j] a
  show "\<exists>lg r' pd. pymupdf_page_step env True preserve_tables handle_multi_column m fr
                        (j, fpage) = (lg, Inr r')
           \<and> pages r' = pages fr @ [pd] \<and> \<not> ocr_used pd
           \<and> page_data.extraction_method pd = ''native'' \<and> text pd = []
           \<and> errors r' = errors fr @ [''OCR failed on page '' @ str_nat (j + 1) @ '': '' @ fe]"
    by auto
next
  assume a: "pymupdf_native_text handle_multi_column fpage = Inr ftext \<and> strip ftext = []"
  then have "pymupdf_native_text handle_multi_column fpage = Inr ftext" "strip ftext = []"
    by simp_all
  from pymupdf_page_step_no_text [OF this, of env False preserve_tables m fr j]
  show "\<exists>lg r' pd. pymupdf_page_step env False preserve_tables handle_multi_column m fr
                        (j, fpage) = (lg, Inr r')
           \<and> pages r' = pages fr @ [pd] \<and> \<not> ocr_used pd
           \<and> page_data.extraction_method pd = ''native'' \<and> text pd = []
           \<and> errors r' = errors fr"
    by auto
next
  assume "notes_slide sl = Inr nt"
  then show "\<exists>sd. extract_slide_content env sl slide_num use_ocr use_llm_formatting = Inr sd
           \<and> (slide_data.ocr_used sd \<longleftrightarrow>
                use_ocr \<and> OCR_AVAILABLE env
                \<and> (\<exists>b t. Picture (Inr b) \<in> set (shapes sl) \<and> b \<noteq> []
                           \<and> perform_ocr_on_image env b = Inr t \<and> t \<noteq> []))"
    by (rule slide_ocr_flag)
next
  assume "only_pictures sl \<and> notes_slide sl = Inr nt"
  then have "only_pictures sl" "notes_slide sl = Inr nt" by simp_all
  then show "\<exists>sd. extract_slide_content env sl slide_num False use_llm_formatting = Inr sd
           \<and> \<not> slide_data.ocr_used sd
           \<and> (\<not> llm_applied env use_llm_formatting \<longrightarrow> slide_data.text sd = [])"
    by (rule slide_without_ocr)
next
  assume "1 \<le> sn \<and> sn \<le> int (length prs) \<and> slide_readable prs sn"
  then have "1 \<le> sn" "sn \<le> int (length prs)" "slide_readable prs sn" by simp_all
  then show "ppt_result.errors (process_slide env prs use_ocr use_llm_formatting res sn)
          = ppt_result.errors res"
    by (rule readable_slide_no_error)
qed

lemma str_nat_1: "str_nat (Suc 0) = ''1''"
  by (simp add: str_nat.simps digit_char_def)

lemma scanned_ocr: "perform_ocr_on_page env_ocr scanned_page = Inr ''scanned words''"
  by code_simp

lemma fitz_scanned_ocr:
  "perform_ocr_on_pymupdf_page env_ocr fitz_scanned_page = Inr ''scanned words''"
  by code_simp

lemma fitz_scanned_text: "pymupdf_native_text True fitz_scanned_page = Inr []"
  by code_simp

lemma fitz_unscannable_text: "pymupdf_native_text True fitz_unscannable_page = Inr []"
  by code_simp

lemma picture_ocr: "perform_ocr_on_image env_ocr [1] = Inr ''scanned words''"
  by code_simp

lemma blank_picture_ocr: "perform_ocr_on_image env_ocr [2] = Inr []"
  by code_simp

lemma picture_deck_readable:
  "slide_readable [picture_slide, blank_picture_slide, broken_picture_slide] 1"
  by (simp add: slide_readable_def picture_slide_def)

theorem image_only_units_witness:
  "extract_text scanned_page = Inr None \<and> no_native_text None
   \<and> perform_ocr_on_page env_ocr scanned_page = Inr ''scanned words''
   \<and> (\<exists>lg r' pd. plumber_page_step env_ocr True True 3 plumber_start (2, scanned_page)
                     = (lg, Inr r')
        \<and> pages r' = pages plumber_start @ [pd] \<and> ocr_used pd
        \<and> page_data.extraction_method pd = ''ocr'' \<and> text pd = ''scanned words''
        \<and> errors r' = errors plumber_start)
   \<and> (\<exists>lg r' pd. plumber_page_step env_ocr False True 3 plumber_start (2, scanned_page)
                     = (lg, Inr r')
        \<and> pages r' = pages plumber_start @ [pd] \<and> \<not> ocr_used pd
        \<and> page_data.extraction_method pd = ''native'' \<and> text pd = []
        \<and> errors r' = errors plumber_start)
   \<and> extract_text unscannable_page = Inr (Some ''  '') \<and> no_native_text (Some ''  '')
   \<and> perform_ocr_on_page env_ocr unscannable_page = Inl ''tesseract failed''
   \<and> (\<exists>lg r' pd. plumber_page_step env_ocr True True 3 plumber_start (3, unscannable_page)
                     = (lg, Inr r')
        \<and> pages r' = pages plumber_start @ [pd] \<and> \<not> ocr_used pd
        \<and> page_data.extraction_method pd = ''native'' \<and> text pd = []
        \<and> errors r' = errors plumber_start @ [''OCR failed on page 3: tesseract failed''])
   \<and> pymupdf_native_text True fitz_scanned_page = Inr [] \<and> strip [] = []
   \<and> perform_ocr_on_pymupdf_page env_ocr fitz_scanned_page = Inr ''scanned words''
   \<and> (\<exists>lg r' pd. pymupdf_page_step env_ocr True True True 2 pymupdf_start
                     (0, fitz_scanned_page) = (lg, Inr r')
        \<and> pages r' = pages pymupdf_start @ [pd] \<and> ocr_used pd
        \<and> page_data.extraction_method pd = ''ocr'' \<and> text pd = ''scanned words''
        \<and> errors r' = errors pymupdf_start)
   \<and> (\<exists>lg r' pd. pymupdf_page_step env_ocr False True True 2 pymupdf_start
                     (0, fitz_scanned_page) = (lg, Inr r')
        \<and> pages r' = pages pymupdf_start @ [pd] \<and> \<not> ocr_used pd
        \<and> page_data.extraction_method pd = ''native'' \<and> text pd = []
        \<and> errors r' = errors pymupdf_start)
   \<and> pymupdf_native_text True fitz_unscannable_page = Inr []
   \<and> perform_ocr_on_pymupdf_page env_ocr fitz_unscannable_page = Inl ''tesseract failed''
   \<and> (\<exists>lg r' pd. pymupdf_page_step env_ocr True True True 2 pymupdf_start
                     (0, fitz_unscannable_page) = (lg, Inr r')
        \<and> pages r' = pages pymupdf_start @ [pd] \<and> \<not> ocr_used pd
        \<and> page_data.extraction_method pd = ''native'' \<and> text pd = []
        \<and> errors r' = errors pymupdf_start @ [''OCR failed on page 1: tesseract failed''])
   \<and> notes_slide picture_slide = Inr None \<and> OCR_AVAILABLE env_ocr
   \<and> Picture (Inr [1]) \<in> set (shapes picture_slide)
   \<and> perform_ocr_on_image env_ocr [1] = Inr ''scanned words''
   \<and> (\<exists>sd. extract_slide_content env_ocr picture_slide 1 True False = Inr sd
         \<and> slide_data.ocr_used sd)
   \<and> notes_slide blank_picture_slide = Inr None
   \<and> shapes blank_picture_slide = [Picture (Inr [2])]
   \<and> perform_ocr_on_image env_ocr [2] = Inr []
   \<and> (\<exists>sd. extract_slide_content env_ocr blank_picture_slide 2 True False = Inr sd
         \<and> \<not> slide_data.ocr_used sd)
   \<and> only_pictures picture_slide \<and> \<not> llm_applied env_ocr False
   \<and> (\<exists>sd. extract_slide_content env_ocr picture_slide 1 False False = Inr sd
         \<and> \<not> slide_data.ocr_used sd \<and> slide_data.text sd = [])
   \<and> (1::int) \<le> int (length [picture_slide, blank_picture_slide, broken_picture_slide])
   \<and> slide_readable [picture_slide, blank_picture_slide, broken_picture_slide] 1
   \<and> ppt_result.errors (process_slide env_ocr
         [picture_slide, blank_picture_slide, broken_picture_slide] False False deck_start 1)
       = ppt_result.errors deck_start"
proof -
  note ok = image_only_units [where env = env_ocr and page = scanned_page and native = None
      and ocr_text = "''scanned words''" and preserve_tables = True and n = 3
      and r = plumber_start and k = 2 and handle_multi_column = True
      and fpage = fitz_scanned_page and ftext = "[]" and focr_text = "''scanned words''"
      and m = 2 and fr = pymupdf_start and j = 0 and sl = picture_slide and nt = None
      and slide_num = 1 and use_ocr = True and use_llm_formatting = False]
  note bad = image_only_units [where env = env_ocr and page = unscannable_page
      and native = "Some ''  ''" and e = "''tesseract failed''" and preserve_tables = True
      and n = 3 and r = plumber_start and k = 3 and handle_multi_column = True
      and fpage = fitz_unscannable_page and ftext = "[]" and fe = "''tesseract failed''"
      and m = 2 and fr = pymupdf_start and j = 0 and sl = blank_picture_slide and nt = None
      and slide_num = 2 and use_ocr = True and use_llm_formatting = False]
  note off = image_only_units [where env = env_ocr and sl = picture_slide and nt = None
      and slide_num = 1 and use_ocr = False and use_llm_formatting = False and sn = 1
      and prs = "[picture_slide, blank_picture_slide, broken_picture_slide]"
      and res = deck_start]
  have et: "extract_text scanned_page = Inr None"
    and eu: "extract_text unscannable_page = Inr (Some ''  '')"
    by (simp_all add: scanned_page_def unscannable_page_def)
  have nn: "no_native_text None" and nu: "no_native_text (Some ''  '')"
    by (simp_all add: no_native_text_def strip_blanks)
  have av: "OCR_AVAILABLE env_ocr" by (simp add: env_ocr_def)
  have ns: "notes_slide picture_slide = Inr None"
    and nb: "notes_slide blank_picture_slide = Inr None"
    and sb: "shapes blank_picture_slide = [Picture (Inr [2])]"
    and ps: "Picture (Inr [1]) \<in> set (shapes picture_slide)"
    by (simp_all add: picture_slide_def blank_picture_slide_def)
  have op: "only_pictures picture_slide"
    by (simp add: only_pictures_def picture_slide_def)
  have nl: "\<not> llm_applied env_ocr False" by (simp add: llm_applied_def)
  have ln: "(1::int) \<le> int (length [picture_slide, blank_picture_slide, broken_picture_slide])"
    by simp
  from ok et nn scanned_ocr
  have p1: "\<exists>lg r' pd. plumber_page_step env_ocr True True 3 plumber_start (2, scanned_page)
                     = (lg, Inr r')
        \<and> pages r' = pages plumber_start @ [pd] \<and> ocr_used pd
        \<and> page_data.extraction_method pd = ''ocr'' \<and> text pd = ''scanned words''
        \<and> errors r' = errors plumber_start"
    by simp
  from ok et nn
  have p2: "\<exists>lg r' pd. plumber_page_step env_ocr False True 3 plumber_start (2, scanned_page)
                     = (lg, Inr r')
        \<and> pages r' = pages plumber_start @ [pd] \<and> \<not> ocr_used pd
        \<and> page_data.extraction_method pd = ''native'' \<and> text pd = []
        \<and> errors r' = errors plumber_start"
    by simp
  from bad eu nu unscannable_ocr
  have p3: "\<exists>lg r' pd. plumber_page_step env_ocr True True 3 plumber_start (3, unscannable_page)
                     = (lg, Inr r')
        \<and> pages r' = pages plumber_start @ [pd] \<and> \<not> ocr_used pd
        \<and> page_data.extraction_method pd = ''native'' \<and> text pd = []
        \<and> errors r' = errors plumber_start @ [''OCR failed on page 3: tesseract failed'']"
    by (simp add: str_nat_3)
  from ok fitz_scanned_text strip_Nil fitz_scanned_ocr
  have f1: "\<exists>lg r' pd. pymupdf_page_step env_ocr True True True 2 pymupdf_start
                     (0, fitz_scanned_page) = (lg, Inr r')
        \<and> pages r' = pages pymupdf_start @ [pd] \<and> ocr_used pd
        \<and> page_data.extraction_method pd = ''ocr'' \<and> text pd = ''scanned words''
        \<and> errors r' = errors pymupdf_start"
    by simp
  from ok fitz_scanned_text strip_Nil
  have f2: "\<exists>lg r' pd. pymupdf_page_step env_ocr False True True 2 pymupdf_start
                     (0, fitz_scanned_page) = (lg, Inr r')
        \<and> pages r' = pages pymupdf_start @ [pd] \<and> \<not> ocr_used pd
        \<and> page_data.extraction_method pd = ''native'' \<and> text pd = []
        \<and> errors r' = errors pymupdf_start"
    by simp
  from bad fitz_unscannable_text strip_Nil fitz_unscannable_ocr
  have f3: "\<exists>lg r' pd. pymupdf_page_step env_ocr True True True 2 pymupdf_start
                     (0, fitz_unscannable_page) = (lg, Inr r')
        \<and> pages r' = pages pymupdf_start @ [pd] \<and> \<not> ocr_used pd
        \<and> page_data.extraction_method pd = ''native'' \<and> text pd = []
        \<and> errors r' = errors pymupdf_start @ [''OCR failed on page 1: tesseract failed'']"
    by (simp add: str_nat_1)
  have hit: "\<exists>b t. Picture (Inr b) \<in> set (shapes picture_slide) \<and> b \<noteq> []
                \<and> perform_ocr_on_image env_ocr b = Inr t \<and> t \<noteq> []"
    using ps picture_ocr by (intro exI [of _ "[1]"] exI [of _ "''scanned words''"]) simp
  from ok ns av hit
  have s1: "\<exists>sd. extract_slide_content env_ocr picture_slide 1 True False = Inr sd
         \<and> slide_data.ocr_used sd"
    by simp
  have miss: "\<not> (\<exists>b t. Picture (Inr b) \<in> set (shapes blank_picture_slide) \<and> b \<noteq> []
                \<and> perform_ocr_on_image env_ocr b = Inr t \<and> t \<noteq> [])"
    using blank_picture_ocr by (auto simp: sb)
  note c7 = bad [THEN conjunct2, THEN conjunct2, THEN conjunct2, THEN conjunct2,
      THEN conjunct2, THEN conjunct2, THEN conjunct1]
  from c7 nb obtain sd where
    sd: "extract_slide_content env_ocr blank_picture_slide 2 True False = Inr sd"
    and fl: "slide_data.ocr_used sd \<longleftrightarrow>
               True \<and> OCR_AVAILABLE env_ocr
               \<and> (\<exists>b t. Picture (Inr b) \<in> set (shapes blank_picture_slide) \<and> b \<noteq> []
                          \<and> perform_ocr_on_image env_ocr b = Inr t \<and> t \<noteq> [])"
    by blast
  from fl miss have "\<not> slide_data.ocr_used sd" by blast
  with sd
  have s2: "\<exists>sd. extract_slide_content env_ocr blank_picture_slide 2 True False = Inr sd
         \<and> \<not> slide_data.ocr_used sd"
    by blast
  from off op ns nl
  have s3: "\<exists>sd. extract_slide_content env_ocr picture_slide 1 False False = Inr sd
         \<and> \<not> slide_data.ocr_used sd \<and> slide_data.text sd = []"
    by simp
  from off ln picture_deck_readable
  have s4: "ppt_result.errors (process_slide env_ocr
         [picture_slide, blank_picture_slide, broken_picture_slide] False False deck_start 1)
       = ppt_result.errors deck_start"
    by simp
  from et nn scanned_ocr p1 p2 eu nu unscannable_ocr p3 fitz_scanned_text strip_Nil
    fitz_scanned_ocr f1 f2 fitz_unscannable_text fitz_unscannable_ocr f3 ns av ps picture_ocr s1
    nb sb blank_picture_ocr s2 op nl s3 ln picture_deck_readable s4
  show ?thesis by (intro conjI)
qed

text \<open>
  Claim C2 as stated fails with OCR enabled where the OCR gives no text: the OCR of the
  third page of \<open>report_pdf\<close>, a page without native text, raises, and the page record
  keeps \<open>ocr_used\<close> false and \<open>extraction_method\<close> \<open>native\<close>, with one error appended;
  the OCR of the only shape of \<open>blank_picture_slide\<close>, a picture, returns the empty
  string, and the slide record keeps \<open>ocr_used\<close> false; so does the record of
  \<open>picture_slide\<close> where OCR is not available. It fails with OCR disabled where
  the language-model pass is applied: the text of \<open>picture_slide\<close>, a slide with one
  picture, is then what the model returns.
\<close>

theorem image_only_counterexample:
  "extract_text unscannable_page = Inr (Some ''  '') \<and> strip ''  '' = []
   \<and> plumber_page_step env_ocr True True 3 plumber_start (3, unscannable_page)
       = ([(INFO, ''Processing page 3/3''), (INFO, ''Performing OCR on page 3''),
           (ERROR, ''OCR failed on page 3: tesseract failed''),
           (ERROR, ''Error extracting tables: table finder failed'')],
          Inr \<lparr> file_path = ''report.pdf'',
                pages = [\<lparr> page_number = 3, text = [], tables = [],
                           extraction_method = ''native'', ocr_used = False \<rparr>],
                total_pages = 3, extraction_method = ''pdfplumber'', tables_found = 0,
                errors = [''OCR failed on page 3: tesseract failed''] \<rparr>)
   \<and> shapes blank_picture_slide = [Picture (Inr [2])]
   \<and> extract_slide_content env_ocr blank_picture_slide 2 True False
       = Inr \<lparr> slide_number = 2, slide_data.text = [], slide_data.tables = [],
               images = [[2]], notes = [], slide_data.extraction_method = ''native'',
               slide_data.ocr_used = False, llm_formatted = False \<rparr>
   \<and> shapes picture_slide = [Picture (Inr [1])]
   \<and> \<not> OCR_AVAILABLE env_no_ocr
   \<and> extract_slide_content env_no_ocr picture_slide 1 True False
       = Inr \<lparr> slide_number = 1, slide_data.text = [], slide_data.tables = [],
               images = [], notes = [], slide_data.extraction_method = ''native'',
               slide_data.ocr_used = False, llm_formatted = False \<rparr>
   \<and> extract_slide_content env_llm_ok picture_slide 1 False True
       = Inr \<lparr> slide_number = 1, slide_data.text = ''Tidy text'', slide_data.tables = [],
               images = [], notes = [], slide_data.extraction_method = ''native'',
               slide_data.ocr_used = False, llm_formatted = True \<rparr>"
proof (intro conjI)
  show "extract_text unscannable_page = Inr (Some ''  '')"
    by (simp add: unscannable_page_def)
  show "strip ''  '' = []" by (rule strip_blanks)
  show "plumber_page_step env_ocr True True 3 plumber_start (3, unscannable_page)
       = ([(INFO, ''Processing page 3/3''), (INFO, ''Performing OCR on page 3''),
           (ERROR, ''OCR failed on page 3: tesseract failed''),
           (ERROR, ''Error extracting tables: table finder failed'')],
          Inr \<lparr> file_path = ''report.pdf'',
                pages = [\<lparr> page_number = 3, text = [], tables = [],
                           extraction_method = ''native'', ocr_used = False \<rparr>],
                total_pages = 3, extraction_method = ''pdfplumber'', tables_found = 0,
                errors = [''OCR failed on page 3: tesseract failed''] \<rparr>)"
    by code_simp
  show "shapes blank_picture_slide = [Picture (Inr [2])]"
    by (simp add: blank_picture_slide_def)
  show "extract_slide_content env_ocr blank_picture_slide 2 True False
       = Inr \<lparr> slide_number = 2, slide_data.text = [], slide_data.tables = [],
               images = [[2]], notes = [], slide_data.extraction_method = ''native'',
               slide_data.ocr_used = False, llm_formatted = False \<rparr>"
    by code_simp
  show "shapes picture_slide = [Picture (Inr [1])]"
    by (simp add: picture_slide_def)
  show "\<not> OCR_AVAILABLE env_no_ocr"
    by (simp add: env_no_ocr_def)
  show "extract_slide_content env_no_ocr picture_slide 1 True False
       = Inr \<lparr> slide_number = 1, slide_data.text = [], slide_data.tables = [],
               images = [], notes = [], slide_data.extraction_method = ''native'',
               slide_data.ocr_used = False, llm_formatted = False \<rparr>"
    by code_simp
  show "extract_slide_content env_llm_ok picture_slide 1 False True
       = Inr \<lparr> slide_number = 1, slide_data.text = ''Tidy text'', slide_data.tables = [],
               images = [], notes = [], slide_data.extraction_method = ''native'',
               slide_data.ocr_used = False, llm_formatted = True \<rparr>"
    by code_simp
qed

end
